theory Spec2Isabelle
  imports Main "HOL-Library.Sublist" "HOL-Library.Word"
begin

section \<open>Go values and the library functions the program calls\<close>

text \<open>
  Go strings are byte sequences: \<^typ>\<open>string\<close> is a list of 8-bit characters, and a source
  literal outside ASCII is written as its UTF-8 bytes. Go's \<open>int\<close> is taken at its width on
  64-bit platforms, so arithmetic wraps around and comparisons read the signed value.
\<close>

type_synonym go_int = "64 word"

definition digitChar :: "nat \<Rightarrow> char" where
  "digitChar d = ''0123456789'' ! d"

fun digits :: "nat \<Rightarrow> string" where
  "digits n = (if n < 10 then [digitChar n] else digits (n div 10) @ [digitChar (n mod 10)])"

declare digits.simps [simp del]

text \<open>The verb \<open>%d\<close> of \<open>fmt.Sprintf\<close> on an \<open>int\<close>: signed decimal.\<close>

definition Itoa :: "go_int \<Rightarrow> string" where
  "Itoa n = (if sint n < 0 then CHR ''-'' # digits (nat (- sint n)) else digits (nat (sint n)))"

subsection \<open>A run-time panic is a value\<close>

datatype panic = SliceBoundsOutOfRange nat nat

definition bindP :: "panic + 'a \<Rightarrow> ('a \<Rightarrow> panic + 'b) \<Rightarrow> panic + 'b" where
  "bindP m f = (case m of Inl e \<Rightarrow> Inl e | Inr v \<Rightarrow> f v)"

text \<open>The slice expressions \<open>s[lo:hi]\<close>, \<open>s[lo:]\<close> and \<open>s[:hi]\<close>, which panic out of range.\<close>

definition slice :: "string \<Rightarrow> nat \<Rightarrow> nat \<Rightarrow> panic + string" where
  "slice s lo hi =
     (if lo \<le> hi \<and> hi \<le> length s then Inr (take (hi - lo) (drop lo s))
      else Inl (SliceBoundsOutOfRange lo hi))"

definition sliceFrom :: "string \<Rightarrow> nat \<Rightarrow> panic + string" where
  "sliceFrom s lo = slice s lo (length s)"

definition sliceTo :: "string \<Rightarrow> nat \<Rightarrow> panic + string" where
  "sliceTo s hi = slice s 0 hi"

subsection \<open>Package strings\<close>

text \<open>\<open>strings.Index\<close>: the byte offset of the first occurrence, \<open>None\<close> for \<open>-1\<close>.\<close>

fun Index :: "string \<Rightarrow> string \<Rightarrow> nat option" where
  "Index [] substr = (if substr = [] then Some 0 else None)"
| "Index (c # cs) substr =
     (if prefix substr (c # cs) then Some 0 else map_option Suc (Index cs substr))"

text \<open>\<open>strings.LastIndex\<close>: the byte offset of the last occurrence.\<close>

fun LastIndex :: "string \<Rightarrow> string \<Rightarrow> nat option" where
  "LastIndex [] substr = (if substr = [] then Some 0 else None)"
| "LastIndex (c # cs) substr =
     (case LastIndex cs substr of
        Some i \<Rightarrow> Some (Suc i)
      | None \<Rightarrow> if prefix substr (c # cs) then Some 0 else None)"

definition Contains :: "string \<Rightarrow> string \<Rightarrow> bool" where
  "Contains s substr = (Index s substr \<noteq> None)"

text \<open>
  \<open>strings.Count\<close>, \<open>Split\<close>, \<open>SplitN\<close> and \<open>ReplaceAll\<close> are modelled for a non-empty
  pattern, the only use the program makes of them. With an empty pattern Go works on UTF-8
  sequences; that case is left unspecified here.
\<close>

function Count :: "string \<Rightarrow> string \<Rightarrow> nat" where
  "Count s substr =
     (if substr = [] then undefined
      else case Index s substr of
             None \<Rightarrow> 0
           | Some i \<Rightarrow> Suc (Count (drop (i + length substr) s) substr))"
  by pat_completeness auto
termination
proof (relation "measure (\<lambda>(s, substr). length s)")
  show "wf (measure (\<lambda>(s, substr). length s))"
    by simp
next
  fix s substr :: string and i :: nat
  assume ne: "substr \<noteq> []" and idx: "Index s substr = Some i"
  have bound: "i + length substr \<le> length t" if "Index t substr = Some i" for t i
    using that
  proof (induction t arbitrary: i)
    case Nil
    then show ?case by (simp split: if_splits)
  next
    case (Cons c cs)
    then show ?case
      by (auto split: if_splits dest: prefix_length_le)
  qed
  from bound [OF idx] ne have "0 < length substr" "i + length substr \<le> length s"
    by simp_all
  then have "length s - (i + length substr) < length s"
    by arith
  then show "((drop (i + length substr) s, substr), (s, substr)) \<in> measure (\<lambda>(s, substr). length s)"
    by simp
qed

declare Count.simps [simp del]

text \<open>
  The loop of \<open>genSplit\<close>: \<open>n\<close> is the number of cuts still allowed; it stops at the first
  failed \<open>Index\<close>.
\<close>

fun genSplit :: "string \<Rightarrow> string \<Rightarrow> nat \<Rightarrow> string list" where
  "genSplit s sep 0 = [s]"
| "genSplit s sep (Suc n) =
     (case Index s sep of
        None \<Rightarrow> [s]
      | Some m \<Rightarrow> take m s # genSplit (drop (m + length sep) s) sep n)"

definition Split :: "string \<Rightarrow> string \<Rightarrow> string list" where
  "Split s sep = (if sep = [] then undefined else genSplit s sep (Count s sep))"

definition SplitN :: "string \<Rightarrow> string \<Rightarrow> nat \<Rightarrow> string list" where
  "SplitN s sep n =
     (if n = 0 then [] else if sep = [] then undefined else genSplit s sep (n - 1))"

function ReplaceAll :: "string \<Rightarrow> string \<Rightarrow> string \<Rightarrow> string" where
  "ReplaceAll s old new =
     (if old = [] then undefined
      else case Index s old of
             None \<Rightarrow> s
           | Some i \<Rightarrow> take i s @ new @ ReplaceAll (drop (i + length old) s) old new)"
  by pat_completeness auto
termination
proof (relation "measure (\<lambda>(s, old, new). length s)")
  show "wf (measure (\<lambda>(s, old, new). length s))"
    by simp
next
  fix s old new :: string and i :: nat
  assume ne: "old \<noteq> []" and idx: "Index s old = Some i"
  have bound: "i + length old \<le> length t" if "Index t old = Some i" for t i
    using that
  proof (induction t arbitrary: i)
    case Nil
    then show ?case by (simp split: if_splits)
  next
    case (Cons c cs)
    then show ?case
      by (auto split: if_splits dest: prefix_length_le)
  qed
  from bound [OF idx] ne have "0 < length old" "i + length old \<le> length s"
    by simp_all
  then have "length s - (i + length old) < length s"
    by arith
  then show "((drop (i + length old) s, old, new), (s, old, new)) \<in> measure (\<lambda>(s, old, new). length s)"
    by simp
qed

declare ReplaceAll.simps [simp del]

text \<open>
  \<open>strings.TrimSpace\<close> removes leading and trailing white space as Unicode defines it
  (\<open>unicode.IsSpace\<close>). On bytes these are the UTF-8 encodings below: the six ASCII
  characters, U+0085, U+00A0, U+1680, U+2000 to U+200A, U+2028, U+2029, U+202F, U+205F and
  U+3000. An invalid sequence decodes to U+FFFD, which is no space.
\<close>

definition spaceRunes :: "string list" where
  "spaceRunes =
     [[CHR 0x09], [CHR 0x0A], [CHR 0x0B], [CHR 0x0C], [CHR 0x0D], [CHR 0x20],
      [CHR 0xC2, CHR 0x85], [CHR 0xC2, CHR 0xA0],
      [CHR 0xE1, CHR 0x9A, CHR 0x80],
      [CHR 0xE2, CHR 0x80, CHR 0x80], [CHR 0xE2, CHR 0x80, CHR 0x81],
      [CHR 0xE2, CHR 0x80, CHR 0x82], [CHR 0xE2, CHR 0x80, CHR 0x83],
      [CHR 0xE2, CHR 0x80, CHR 0x84], [CHR 0xE2, CHR 0x80, CHR 0x85],
      [CHR 0xE2, CHR 0x80, CHR 0x86], [CHR 0xE2, CHR 0x80, CHR 0x87],
      [CHR 0xE2, CHR 0x80, CHR 0x88], [CHR 0xE2, CHR 0x80, CHR 0x89],
      [CHR 0xE2, CHR 0x80, CHR 0x8A],
      [CHR 0xE2, CHR 0x80, CHR 0xA8], [CHR 0xE2, CHR 0x80, CHR 0xA9],
      [CHR 0xE2, CHR 0x80, CHR 0xAF],
      [CHR 0xE2, CHR 0x81, CHR 0x9F],
      [CHR 0xE3, CHR 0x80, CHR 0x80]]"

text \<open>The width in bytes of a white-space rune at the start (at the end) of \<open>s\<close>, or 0.\<close>

definition leadingSpace :: "string \<Rightarrow> nat" where
  "leadingSpace s = (case find (\<lambda>p. prefix p s) spaceRunes of None \<Rightarrow> 0 | Some p \<Rightarrow> length p)"

definition trailingSpace :: "string \<Rightarrow> nat" where
  "trailingSpace s =
     (case find (\<lambda>p. prefix (rev p) (rev s)) spaceRunes of None \<Rightarrow> 0 | Some p \<Rightarrow> length p)"

function TrimLeft :: "string \<Rightarrow> string" where
  "TrimLeft s = (if leadingSpace s = 0 then s else TrimLeft (drop (leadingSpace s) s))"
  by pat_completeness auto
termination
proof (relation "measure length")
  show "wf (measure length)"
    by simp
next
  fix s :: string
  assume pos: "leadingSpace s \<noteq> 0"
  have "s \<noteq> []"
  proof
    assume "s = []"
    then have "leadingSpace s = 0"
      by (simp add: leadingSpace_def spaceRunes_def)
    with pos show False by simp
  qed
  with pos show "(drop (leadingSpace s) s, s) \<in> measure length"
    by simp
qed

function TrimRight :: "string \<Rightarrow> string" where
  "TrimRight s =
     (if trailingSpace s = 0 then s else TrimRight (take (length s - trailingSpace s) s))"
  by pat_completeness auto
termination
proof (relation "measure length")
  show "wf (measure length)"
    by simp
next
  fix s :: string
  assume pos: "trailingSpace s \<noteq> 0"
  have "s \<noteq> []"
  proof
    assume "s = []"
    then have "trailingSpace s = 0"
      by (simp add: trailingSpace_def spaceRunes_def)
    with pos show False by simp
  qed
  with pos show "(take (length s - trailingSpace s) s, s) \<in> measure length"
    by simp
qed

declare TrimLeft.simps [simp del] TrimRight.simps [simp del]

definition TrimSpace :: "string \<Rightarrow> string" where
  "TrimSpace s = TrimRight (TrimLeft s)"

subsection \<open>Package strconv\<close>

text \<open>
  \<open>strconv.Atoi\<close>: an optional sign, then one or more decimal digits and nothing else; a
  value outside the range of \<open>int\<close> is an error. \<open>None\<close> stands for the error.
\<close>

definition isDigit :: "char \<Rightarrow> bool" where
  "isDigit c = (c \<in> set ''0123456789'')"

definition digitVal :: "char \<Rightarrow> int" where
  "digitVal c = int (length (takeWhile (\<lambda>d. d \<noteq> c) ''0123456789''))"

definition Atoi :: "string \<Rightarrow> go_int option" where
  "Atoi s =
     (let neg = (s \<noteq> [] \<and> hd s = CHR ''-'');
          ds = (if s \<noteq> [] \<and> (hd s = CHR ''-'' \<or> hd s = CHR ''+'') then tl s else s)
      in if ds = [] \<or> \<not> list_all isDigit ds then None
         else let v = foldl (\<lambda>n c. n * 10 + digitVal c) 0 ds;
                  v' = (if neg then - v else v)
              in if - (2 ^ 63) \<le> v' \<and> v' < 2 ^ 63 then Some (word_of_int v') else None)"

section \<open>Package config\<close>

type_synonym ReviewPrecision = string

definition PrecisionMinor :: ReviewPrecision where "PrecisionMinor = ''minor''"
definition PrecisionMedium :: ReviewPrecision where "PrecisionMedium = ''medium''"
definition PrecisionStrict :: ReviewPrecision where "PrecisionStrict = ''strict''"

record RepositoryConfig =
  Name :: string
  Precision :: ReviewPrecision
  CustomPrompt :: string

record OrganizationConfig =
  Name :: string
  Repositories :: "RepositoryConfig list"

record ReviewConfig =
  Organizations :: "OrganizationConfig list"

definition MAX_FILES_FOR_REVIEW :: go_int where "MAX_FILES_FOR_REVIEW = 25"
definition MAX_ADDITIONS_FOR_REVIEW :: go_int where "MAX_ADDITIONS_FOR_REVIEW = 800"
definition MAX_TOTAL_CHANGES :: go_int where "MAX_TOTAL_CHANGES = 1200"
definition WARN_FILES_THRESHOLD :: go_int where "WARN_FILES_THRESHOLD = 20"
definition WARN_ADDITIONS_THRESHOLD :: go_int where "WARN_ADDITIONS_THRESHOLD = 400"

text \<open>
  \<open>GetRepositoryConfig\<close>: the loop over the organizations. In an organization named
  \<open>owner\<close> the first inner loop returns the first repository named \<open>repoName\<close>, the second
  the first one named \<open>*\<close> or \<open>default\<close>; when both find nothing the outer loop goes on.
  \<open>None\<close> is the \<open>nil\<close> result.
\<close>

fun GetRepositoryConfigLoop ::
  "OrganizationConfig list \<Rightarrow> string \<Rightarrow> string \<Rightarrow> RepositoryConfig option" where
  "GetRepositoryConfigLoop [] owner repoName = None"
| "GetRepositoryConfigLoop (org # orgs) owner repoName =
     (if OrganizationConfig.Name org = owner then
        (case find (\<lambda>repo. RepositoryConfig.Name repo = repoName) (Repositories org) of
           Some repo \<Rightarrow> Some repo
         | None \<Rightarrow>
             (case find (\<lambda>repo. RepositoryConfig.Name repo = ''*''
                                 \<or> RepositoryConfig.Name repo = ''default'')
                        (Repositories org) of
                Some repo \<Rightarrow> Some repo
              | None \<Rightarrow> GetRepositoryConfigLoop orgs owner repoName))
      else GetRepositoryConfigLoop orgs owner repoName)"

definition GetRepositoryConfig ::
  "ReviewConfig \<Rightarrow> string \<Rightarrow> string \<Rightarrow> RepositoryConfig option" where
  "GetRepositoryConfig rc owner repoName =
     GetRepositoryConfigLoop (Organizations rc) owner repoName"

section \<open>Package review\<close>

record ReviewComment =
  Path :: string
  Line :: go_int
  Body :: string
  Side :: string

record ReviewResult =
  Summary :: string
  Comments :: "ReviewComment list"

record PRSizeCheck =
  ShouldReview :: bool
  WarningMessage :: string
  SkipMessage :: string

record PromptData =
  Title :: string
  Body :: string
  Precision :: string
  Diff :: string
  CustomPrompt :: string

subsection \<open>Prompt assembly\<close>

definition substitutePromptVariables :: "string \<Rightarrow> PromptData \<Rightarrow> string" where
  "substitutePromptVariables template data =
     (let result = template;
          result = ReplaceAll result ''{{.Title}}'' (Title data);
          result = ReplaceAll result ''{{.Body}}'' (PromptData.Body data);
          result = ReplaceAll result ''{{.Precision}}'' (PromptData.Precision data);
          result = ReplaceAll result ''{{.Diff}}'' (Diff data);
          result = ReplaceAll result ''{{.CustomPrompt}}'' (PromptData.CustomPrompt data)
      in result)"

subsection \<open>Decoding the model's reply\<close>

definition extractSection :: "string \<Rightarrow> string \<Rightarrow> panic + string" where
  "extractSection text sectionHeader =
     (case Index text sectionHeader of
        None \<Rightarrow> Inr []
      | Some startIndex \<Rightarrow>
          bindP (sliceFrom text startIndex) (\<lambda>fromHeader.
            case Index fromHeader ''$$'' of
              None \<Rightarrow> Inr []
            | Some d \<Rightarrow>
                let delimStart = d + startIndex + 2 in
                bindP (sliceFrom text delimStart) (\<lambda>fromDelim.
                  case Index fromDelim ''$$'' of
                    None \<Rightarrow> Inr []
                  | Some e \<Rightarrow>
                      let delimEnd = e + delimStart in
                      bindP (slice text delimStart delimEnd) (\<lambda>content.
                        Inr (TrimSpace content)))))"

definition parsePRCommentBlock :: "string \<Rightarrow> panic + ReviewComment option" where
  "parsePRCommentBlock block =
     (case Index block ''$$'' of
        None \<Rightarrow> Inr None
      | Some startDelim \<Rightarrow>
          (case LastIndex block ''$$'' of
             None \<Rightarrow> Inr None
           | Some endDelim \<Rightarrow>
               if endDelim \<le> startDelim then Inr None
               else
                 bindP (sliceTo block startDelim) (\<lambda>h.
                   let header = TrimSpace h in
                   bindP (slice block (startDelim + 2) endDelim) (\<lambda>c.
                     let content = TrimSpace c;
                         parts = SplitN header '':'' 3
                     in if length parts < 3 then Inr None
                        else
                          let file = TrimSpace (parts ! 0);
                              lineNumStr = TrimSpace (parts ! 1);
                              categoryPart = TrimSpace (parts ! 2)
                          in case Atoi lineNumStr of
                               None \<Rightarrow> Inr None
                             | Some lineNum \<Rightarrow>
                                 Inr (Some \<lparr>Path = file, Line = lineNum,
                                            Body = categoryPart @ ''\<newline>\<newline>'' @ content,
                                            Side = ''RIGHT''\<rparr>)))))"

text \<open>
  The loop \<open>for i := 1; i < len(parts); i++\<close> of \<open>parseClaudeResponse\<close>, run on the parts
  after the first, appending to \<open>comments\<close>.
\<close>

fun parseBlocks :: "string list \<Rightarrow> ReviewComment list \<Rightarrow> panic + ReviewComment list" where
  "parseBlocks [] comments = Inr comments"
| "parseBlocks (part # parts) comments =
     (case parsePRCommentBlock part of
        Inl e \<Rightarrow> Inl e
      | Inr None \<Rightarrow> parseBlocks parts comments
      | Inr (Some comment) \<Rightarrow> parseBlocks parts (comments @ [comment]))"

definition poemHeading :: string where
  "poemHeading =
     ''\<newline>\<newline>---\<newline>\<newline>**And now, a little poem about your changes '' @
     [CHR 0xF0, CHR 0x9F, CHR 0x8C, CHR 0xAA, CHR 0xEF, CHR 0xB8, CHR 0x8F,
      CHR 0xE2, CHR 0x9C, CHR 0xA8] @
     ''**\<newline>''"

definition branding :: string where
  "branding =
     ''## '' @ [CHR 0xF0, CHR 0x9F, CHR 0x8C, CHR 0xAA, CHR 0xEF, CHR 0xB8, CHR 0x8F] @
     '' Cyclone AI Code Review\<newline>\<newline>''"

definition parseClaudeResponse :: "string \<Rightarrow> string \<Rightarrow> panic + ReviewResult" where
  "parseClaudeResponse claudeText diff =
     bindP (extractSection claudeText ''SUMMARY:'') (\<lambda>summary.
       bindP (extractSection claudeText ''POEM:'') (\<lambda>poem.
         let parts = Split claudeText ''PR_COMMENT:'' in
         bindP (parseBlocks (drop 1 parts) []) (\<lambda>comments.
           let finalSummary = summary;
               finalSummary = (if poem \<noteq> [] then finalSummary @ poemHeading @ poem
                               else finalSummary);
               finalSummary = branding @ finalSummary
           in Inr \<lparr>Summary = finalSummary, Comments = comments\<rparr>)))"

section \<open>Package bot\<close>

text \<open>
  The webhook's pull request and repository, with the nil-safe getters of the GitHub
  client library: an absent object or field reads as the zero value.
\<close>

record PullRequest =
  Draft :: "bool option"
  Title :: "string option"
  Body :: "string option"
  Number :: "go_int option"
  ChangedFiles :: "go_int option"
  Additions :: "go_int option"
  Deletions :: "go_int option"

record User =
  Login :: "string option"

record Repository =
  Owner :: "User option"
  Name :: "string option"

definition getter :: "'r option \<Rightarrow> ('r \<Rightarrow> 'a option) \<Rightarrow> 'a \<Rightarrow> 'a" where
  "getter obj field zero =
     (case obj of None \<Rightarrow> zero | Some r \<Rightarrow> (case field r of None \<Rightarrow> zero | Some v \<Rightarrow> v))"

definition GetDraft :: "PullRequest option \<Rightarrow> bool" where
  "GetDraft pr = getter pr Draft False"

definition GetTitle :: "PullRequest option \<Rightarrow> string" where
  "GetTitle pr = getter pr PullRequest.Title []"

definition GetBody :: "PullRequest option \<Rightarrow> string" where
  "GetBody pr = getter pr PullRequest.Body []"

definition GetNumber :: "PullRequest option \<Rightarrow> go_int" where
  "GetNumber pr = getter pr Number 0"

definition GetChangedFiles :: "PullRequest option \<Rightarrow> go_int" where
  "GetChangedFiles pr = getter pr ChangedFiles 0"

definition GetAdditions :: "PullRequest option \<Rightarrow> go_int" where
  "GetAdditions pr = getter pr Additions 0"

definition GetDeletions :: "PullRequest option \<Rightarrow> go_int" where
  "GetDeletions pr = getter pr Deletions 0"

definition GetOwner :: "Repository option \<Rightarrow> User option" where
  "GetOwner repo = (case repo of None \<Rightarrow> None | Some r \<Rightarrow> Owner r)"

definition GetLogin :: "User option \<Rightarrow> string" where
  "GetLogin u = getter u Login []"

definition GetName :: "Repository option \<Rightarrow> string" where
  "GetName repo = getter repo Repository.Name []"

subsection \<open>The event filter\<close>

definition shouldTriggerReview :: "string \<Rightarrow> PullRequest option \<Rightarrow> bool" where
  "shouldTriggerReview action pr =
     (if GetDraft pr then False
      else if action = ''opened'' then True
      else if action = ''ready_for_review'' then True
      else if action = ''synchronize'' then False
      else False)"

subsection \<open>The size gate\<close>

definition skipMessageFiles :: "go_int \<Rightarrow> go_int \<Rightarrow> string" where
  "skipMessageFiles files limit =
     ''## '' @ [CHR 0xF0, CHR 0x9F, CHR 0x8C, CHR 0xAA, CHR 0xEF, CHR 0xB8, CHR 0x8F] @
     '' Cyclone Notice\<newline>'' @ ''\<newline>'' @
     ''**PR Too Large for Automated Review**\<newline>'' @ ''\<newline>'' @ ''This PR modifies **'' @
     Itoa files @
     '' files**, which exceeds our limit of '' @
     Itoa limit @
     '' files for automated review.\<newline>'' @ ''\<newline>'' @
     ''**Why we skip large PRs:**\<newline>'' @ ''- '' @ [CHR 0xF0, CHR 0x9F, CHR 0x8E, CHR 0xAF] @
     '' **Review Quality**: Large PRs are harder to review thoroughly\<newline>'' @ ''- '' @
     [CHR 0xF0, CHR 0x9F, CHR 0xA7, CHR 0xA0] @
     '' **Cognitive Load**: Smaller PRs are easier for humans to understand\<newline>'' @ ''- '' @
     [CHR 0xF0, CHR 0x9F, CHR 0x90, CHR 0x9B] @
     '' **Bug Detection**: Issues are easier to spot in focused changes\<newline>'' @ ''- '' @
     [CHR 0xF0, CHR 0x9F, CHR 0x9A, CHR 0x80] @
     '' **Faster Iteration**: Smaller PRs get merged faster\<newline>'' @ ''\<newline>'' @
     ''**Suggestions:**\<newline>'' @
     ''- Consider breaking this into smaller, focused PRs\<newline>'' @
     ''- Each PR should ideally change < 15 files and < 400 lines\<newline>'' @
     ''- Group related changes together (e.g., '' @ [CHR 0x22] @ ''Add user authentication'' @
     [CHR 0x22] @ '', '' @ [CHR 0x22] @ ''Update API endpoints'' @ [CHR 0x22] @ '')\<newline>'' @
     ''\<newline>'' @ ''*Happy to review once split into smaller chunks!* '' @
     [CHR 0xF0, CHR 0x9F, CHR 0x8C, CHR 0xAA, CHR 0xEF, CHR 0xB8, CHR 0x8F]"

definition skipMessageAdditions :: "go_int \<Rightarrow> go_int \<Rightarrow> string" where
  "skipMessageAdditions additions limit =
     ''## '' @ [CHR 0xF0, CHR 0x9F, CHR 0x8C, CHR 0xAA, CHR 0xEF, CHR 0xB8, CHR 0x8F] @
     '' Cyclone Notice\<newline>'' @ ''\<newline>'' @
     ''**PR Too Large for Automated Review**\<newline>'' @ ''\<newline>'' @ ''This PR adds **'' @
     Itoa additions @
     '' lines**, which exceeds our limit of '' @
     Itoa limit @
     '' lines for automated review.\<newline>'' @ ''\<newline>'' @
     ''**Large PRs are challenging because:**\<newline>'' @ ''- '' @
     [CHR 0xF0, CHR 0x9F, CHR 0x94, CHR 0x8D] @
     '' **Review Thoroughness**: Hard to catch all issues in large changes\<newline>'' @ ''- '' @
     [CHR 0xE2, CHR 0x8F, CHR 0xB1, CHR 0xEF, CHR 0xB8, CHR 0x8F] @
     '' **Review Time**: Takes much longer to review properly  \<newline>'' @ ''- '' @
     [CHR 0xF0, CHR 0x9F, CHR 0xA4, CHR 0x94] @
     '' **Context Switching**: Difficult to keep all changes in mind\<newline>'' @ ''- '' @
     [CHR 0xF0, CHR 0x9F, CHR 0x94, CHR 0x84] @
     '' **Merge Conflicts**: Larger PRs are more likely to conflict\<newline>'' @ ''\<newline>'' @
     ''**Best Practices:**\<newline>'' @ ''- Aim for PRs with < 400 lines of additions\<newline>'' @
     ''- Split features into logical, reviewable chunks\<newline>'' @
     ''- Consider feature flags for large features\<newline>'' @ ''\<newline>'' @
     ''*Ready to provide detailed feedback on smaller PRs!* '' @
     [CHR 0xF0, CHR 0x9F, CHR 0x8C, CHR 0xAA, CHR 0xEF, CHR 0xB8, CHR 0x8F]"

definition skipMessageTotal :: "go_int \<Rightarrow> go_int \<Rightarrow> go_int \<Rightarrow> go_int \<Rightarrow> string" where
  "skipMessageTotal totalChanges additions deletions limit =
     ''## '' @ [CHR 0xF0, CHR 0x9F, CHR 0x8C, CHR 0xAA, CHR 0xEF, CHR 0xB8, CHR 0x8F] @
     '' Cyclone Notice\<newline>'' @ ''\<newline>'' @
     ''**PR Too Large for Automated Review**\<newline>'' @ ''\<newline>'' @ ''This PR has **'' @
     Itoa totalChanges @
     '' total changes** (+'' @
     Itoa additions @
     '', -'' @
     Itoa deletions @
     ''), exceeding our limit of '' @
     Itoa limit @
     '' changes.\<newline>'' @ ''\<newline>'' @
     ''**Recommendation**: Break this into smaller, focused PRs for better review quality and faster merge times.\<newline>'' @
     ''\<newline>'' @ ''*Each PR should tell a focused story about one specific change.* '' @
     [CHR 0xF0, CHR 0x9F, CHR 0x8C, CHR 0xAA, CHR 0xEF, CHR 0xB8, CHR 0x8F]"

definition warningOne :: "string \<Rightarrow> string" where
  "warningOne w =
     ''**'' @ [CHR 0xE2, CHR 0x9A, CHR 0xA0, CHR 0xEF, CHR 0xB8, CHR 0x8F] @
     '' Large PR Warning:**\<newline>'' @
     w @
     ''\<newline>'' @ ''\<newline>'' @
     ''*Smaller PRs are easier to review thoroughly and merge faster.*\<newline>'' @ ''\<newline>'' @
     ''---''"

definition warningTwo :: "string \<Rightarrow> string \<Rightarrow> string" where
  "warningTwo w0 w1 =
     ''**'' @ [CHR 0xE2, CHR 0x9A, CHR 0xA0, CHR 0xEF, CHR 0xB8, CHR 0x8F] @
     '' Large PR Warning:**\<newline>'' @
     w0 @
     ''\<newline>'' @
     w1 @
     ''\<newline>'' @ ''\<newline>'' @
     ''*Smaller PRs are easier to review thoroughly and merge faster.*\<newline>'' @ ''\<newline>'' @
     ''---''"

definition filesWarning :: "go_int \<Rightarrow> go_int \<Rightarrow> string" where
  "filesWarning n threshold =
     [CHR 0xF0, CHR 0x9F, CHR 0x93, CHR 0x81] @ '' **'' @ Itoa n @
     '' files changed** (consider < '' @ Itoa threshold @ '')''"

definition additionsWarning :: "go_int \<Rightarrow> go_int \<Rightarrow> string" where
  "additionsWarning n threshold =
     [CHR 0xF0, CHR 0x9F, CHR 0x93, CHR 0x88] @ '' **'' @ Itoa n @
     '' lines added** (consider < '' @ Itoa threshold @ '')''"

definition checkPRSize :: "PullRequest option \<Rightarrow> PRSizeCheck" where
  "checkPRSize pr =
     (let files = GetChangedFiles pr;
          additions = GetAdditions pr;
          deletions = GetDeletions pr;
          totalChanges = additions + deletions
      in if sint files > sint MAX_FILES_FOR_REVIEW then
           \<lparr>ShouldReview = False, WarningMessage = [],
            SkipMessage = skipMessageFiles files MAX_FILES_FOR_REVIEW\<rparr>
         else if sint additions > sint MAX_ADDITIONS_FOR_REVIEW then
           \<lparr>ShouldReview = False, WarningMessage = [],
            SkipMessage = skipMessageAdditions additions MAX_ADDITIONS_FOR_REVIEW\<rparr>
         else if sint totalChanges > sint MAX_TOTAL_CHANGES then
           \<lparr>ShouldReview = False, WarningMessage = [],
            SkipMessage = skipMessageTotal totalChanges additions deletions MAX_TOTAL_CHANGES\<rparr>
         else
           let warnings = [];
               warnings = (if sint files > sint WARN_FILES_THRESHOLD
                           then warnings @ [filesWarning files WARN_FILES_THRESHOLD]
                           else warnings);
               warnings = (if sint additions > sint WARN_ADDITIONS_THRESHOLD
                           then warnings @ [additionsWarning additions WARN_ADDITIONS_THRESHOLD]
                           else warnings);
               warningMessage =
                 (if length warnings > 0 then
                    let warningMessage = warningOne (warnings ! 0 @ ''\<newline>'')
                    in if length warnings > 1 then warningTwo (warnings ! 0) (warnings ! 1)
                       else warningMessage
                  else [])
           in \<lparr>ShouldReview = True, WarningMessage = warningMessage, SkipMessage = []\<rparr>)"

subsection \<open>The orchestrator\<close>

text \<open>
  \<open>ProcessPullRequest\<close> talks to the code host and to the model. The model below takes
  their answers as arguments and returns the outbound calls made, in order: \<open>prDiff\<close> is
  what \<open>GetPRDiff\<close> answers (\<open>None\<close> when it fails) and \<open>callClaudeAPI\<close> is the text the
  model call gives back. A failed post is only logged, so it does not show.
\<close>

datatype call =
  PostComment string string go_int string
| GetPRDiff string string go_int
| PostReview string string go_int ReviewResult

record services =
  prDiff :: "string \<Rightarrow> string \<Rightarrow> go_int \<Rightarrow> string option"
  callClaudeAPI :: "string \<Rightarrow> string \<Rightarrow> string \<Rightarrow> RepositoryConfig \<Rightarrow> string"

definition GenerateReview ::
  "services \<Rightarrow> string \<Rightarrow> string \<Rightarrow> string \<Rightarrow> RepositoryConfig \<Rightarrow> panic + ReviewResult" where
  "GenerateReview svc diff title body repoConfig =
     (let claudeReview = callClaudeAPI svc diff title body repoConfig
      in parseClaudeResponse claudeReview diff)"

definition ProcessPullRequest ::
  "ReviewConfig \<Rightarrow> services \<Rightarrow> Repository option \<Rightarrow> PullRequest option \<Rightarrow> panic + call list" where
  "ProcessPullRequest reviewConfig svc repo pr =
     (let owner = GetLogin (GetOwner repo);
          repoName = GetName repo;
          prNumber = GetNumber pr;
          repoConfig =
            (case GetRepositoryConfig reviewConfig owner repoName of
               None \<Rightarrow> \<lparr>RepositoryConfig.Name = repoName, Precision = PrecisionMedium,
                         CustomPrompt = []\<rparr>
             | Some c \<Rightarrow> c);
          sizeCheck = checkPRSize pr
      in if \<not> ShouldReview sizeCheck then
           Inr [PostComment owner repoName prNumber (SkipMessage sizeCheck)]
         else
           (case prDiff svc owner repoName prNumber of
              None \<Rightarrow> Inr [GetPRDiff owner repoName prNumber]
            | Some diff \<Rightarrow>
                bindP (GenerateReview svc diff (GetTitle pr) (GetBody pr) repoConfig)
                  (\<lambda>reviewResult.
                     let reviewResult =
                           (if WarningMessage sizeCheck \<noteq> []
                            then reviewResult\<lparr>Summary :=
                                   WarningMessage sizeCheck @ Summary reviewResult\<rparr>
                            else reviewResult)
                     in Inr [GetPRDiff owner repoName prNumber,
                             PostReview owner repoName prNumber reviewResult])))"

section \<open>Notions used in the statements\<close>

text \<open>
  A block whose last \<open>$$\<close> starts one byte after its first one: its only dollars are three
  in a row.
\<close>

definition delimitersOverlap :: "string \<Rightarrow> bool" where
  "delimitersOverlap block =
     (case Index block ''$$'' of
        None \<Rightarrow> False
      | Some i \<Rightarrow> LastIndex block ''$$'' = Some (Suc i))"

text \<open>The comments a block contributes: the one it parses to, or none.\<close>

definition blockComments :: "string \<Rightarrow> ReviewComment list" where
  "blockComments block =
     (case parsePRCommentBlock block of Inr (Some comment) \<Rightarrow> [comment] | _ \<Rightarrow> [])"

text \<open>The example reply of the specification, its block and the comment it stands for.\<close>

definition exampleComment :: string where
  "exampleComment =
     ''PR_COMMENT:main.go:45: '' @ [CHR 0xE2, CHR 0x9A, CHR 0xA0, CHR 0xEF, CHR 0xB8, CHR 0x8F] @
     '' **issue**: $$Fix this$$''"

definition exampleBlock :: string where
  "exampleBlock =
     ''main.go:45: '' @ [CHR 0xE2, CHR 0x9A, CHR 0xA0, CHR 0xEF, CHR 0xB8, CHR 0x8F] @
     '' **issue**: $$Fix this$$''"

definition exampleResult :: ReviewComment where
  "exampleResult =
     \<lparr>Path = ''main.go'', Line = 45,
      Body = [CHR 0xE2, CHR 0x9A, CHR 0xA0, CHR 0xEF, CHR 0xB8, CHR 0x8F] @
             '' **issue**:\<newline>\<newline>Fix this'',
      Side = ''RIGHT''\<rparr>"

text \<open>
  A pull request with the given counts, and the two ends of every warning block.
\<close>

definition examplePR :: "go_int \<Rightarrow> go_int \<Rightarrow> go_int \<Rightarrow> PullRequest option" where
  "examplePR files additions deletions =
     Some \<lparr>Draft = Some False, Title = Some ''t'', Body = None, Number = Some 7,
           ChangedFiles = Some files, Additions = Some additions,
           Deletions = Some deletions\<rparr>"

definition warningPrefix :: string where
  "warningPrefix =
     ''**'' @ [CHR 0xE2, CHR 0x9A, CHR 0xA0, CHR 0xEF, CHR 0xB8, CHR 0x8F] @
     '' Large PR Warning:**\<newline>''"

definition warningSuffix :: string where
  "warningSuffix =
     ''\<newline>\<newline>*Smaller PRs are easier to review thoroughly and merge faster.*\<newline>\<newline>---''"

text \<open>
  A template written as a list of pieces, literal text or one of the five placeholders:
  \<open>render\<close> is its text, \<open>fill\<close> the text with each placeholder replaced by its value,
  \<open>loneBraces\<close> says that every opening brace of a string is followed by a character
  that is no opening brace, \<open>plainText\<close> that every literal piece is so, and \<open>substOne\<close>
  turns the holes for one placeholder into text.
\<close>

datatype slot = TitleSlot | BodySlot | PrecisionSlot | DiffSlot | CustomPromptSlot

datatype piece = Text string | Hole slot

fun token :: "slot \<Rightarrow> string" where
  "token TitleSlot = ''{{.Title}}''"
| "token BodySlot = ''{{.Body}}''"
| "token PrecisionSlot = ''{{.Precision}}''"
| "token DiffSlot = ''{{.Diff}}''"
| "token CustomPromptSlot = ''{{.CustomPrompt}}''"

fun slotValue :: "PromptData \<Rightarrow> slot \<Rightarrow> string" where
  "slotValue data TitleSlot = PromptData.Title data"
| "slotValue data BodySlot = PromptData.Body data"
| "slotValue data PrecisionSlot = PromptData.Precision data"
| "slotValue data DiffSlot = Diff data"
| "slotValue data CustomPromptSlot = PromptData.CustomPrompt data"

fun render :: "piece list \<Rightarrow> string" where
  "render [] = []"
| "render (Text s # ps) = s @ render ps"
| "render (Hole k # ps) = token k @ render ps"

fun fill :: "PromptData \<Rightarrow> piece list \<Rightarrow> string" where
  "fill data [] = []"
| "fill data (Text s # ps) = s @ fill data ps"
| "fill data (Hole k # ps) = slotValue data k @ fill data ps"

fun loneBraces :: "string \<Rightarrow> bool" where
  "loneBraces [] = True"
| "loneBraces [c] = (c \<noteq> CHR ''{'')"
| "loneBraces (c # d # cs) = ((c \<noteq> CHR ''{'' \<or> d \<noteq> CHR ''{'') \<and> loneBraces (d # cs))"

fun plainText :: "piece list \<Rightarrow> bool" where
  "plainText [] = True"
| "plainText (Text s # ps) = (loneBraces s \<and> plainText ps)"
| "plainText (Hole k # ps) = plainText ps"

fun substOne :: "slot \<Rightarrow> string \<Rightarrow> piece list \<Rightarrow> piece list" where
  "substOne k v [] = []"
| "substOne k v (Text s # ps) = Text s # substOne k v ps"
| "substOne k v (Hole k' # ps) = (if k' = k then Text v else Hole k') # substOne k v ps"

text \<open>
  An organization that can answer for a repository: it is named \<open>owner\<close> and holds an
  entry named \<open>repoName\<close>, \<open>*\<close> or \<open>default\<close>. Then example configurations, the
  configuration the orchestrator falls back to, and example collaborators.
\<close>

definition usableOrg :: "string \<Rightarrow> string \<Rightarrow> OrganizationConfig \<Rightarrow> bool" where
  "usableOrg owner repoName org =
     (OrganizationConfig.Name org = owner \<and>
      list_ex (\<lambda>repo. RepositoryConfig.Name repo = repoName \<or> RepositoryConfig.Name repo = ''*''
                       \<or> RepositoryConfig.Name repo = ''default'')
              (Repositories org))"

definition duplicateOrgs :: ReviewConfig where
  "duplicateOrgs =
     \<lparr>Organizations =
        [\<lparr>OrganizationConfig.Name = ''acme'',
          Repositories = [\<lparr>RepositoryConfig.Name = ''*'', Precision = ''minor'',
                            CustomPrompt = []\<rparr>]\<rparr>,
         \<lparr>OrganizationConfig.Name = ''acme'',
          Repositories = [\<lparr>RepositoryConfig.Name = ''svc'', Precision = ''strict'',
                            CustomPrompt = []\<rparr>]\<rparr>]\<rparr>"

definition exampleOrgs :: ReviewConfig where
  "exampleOrgs =
     \<lparr>Organizations =
        [\<lparr>OrganizationConfig.Name = ''acme'',
          Repositories = [\<lparr>RepositoryConfig.Name = ''*'', Precision = ''minor'',
                            CustomPrompt = []\<rparr>,
                          \<lparr>RepositoryConfig.Name = ''svc'', Precision = ''strict'',
                            CustomPrompt = ''be kind''\<rparr>]\<rparr>]\<rparr>"

definition defaultConfig :: "string \<Rightarrow> RepositoryConfig" where
  "defaultConfig repoName =
     \<lparr>RepositoryConfig.Name = repoName, Precision = ''medium'', CustomPrompt = []\<rparr>"

definition exampleRepository :: "Repository option" where
  "exampleRepository =
     Some \<lparr>Owner = Some \<lparr>Login = Some ''other''\<rparr>, Repository.Name = Some ''svc''\<rparr>"

definition exampleServices :: services where
  "exampleServices =
     \<lparr>prDiff = (\<lambda>owner repo number. Some ''=== a.go ===''),
      callClaudeAPI = (\<lambda>diff title body repoConfig. ''Error generating AI review'')\<rparr>"


section \<open>The event filter\<close>

text \<open>
  Claim C5. \<open>shouldTriggerReview\<close> answers no for every draft pull request, whatever the
  action; for a pull request that is no draft it answers yes exactly for the actions
  \<open>opened\<close> and \<open>ready_for_review\<close>, and no for \<open>synchronize\<close> and every other action.
\<close>

theorem shouldTriggerReview_decision:
  "shouldTriggerReview action pr =
     (GetDraft pr = False \<and> (action = ''opened'' \<or> action = ''ready_for_review''))"
  by (simp add: shouldTriggerReview_def)

theorem shouldTriggerReview_decision_witness:
  "shouldTriggerReview ''opened''
     (Some \<lparr>Draft = Some False, Title = None, Body = None, Number = None,
            ChangedFiles = None, Additions = None, Deletions = None\<rparr>)
   \<and> shouldTriggerReview ''ready_for_review'' None
   \<and> shouldTriggerReview ''synchronize'' None = False
   \<and> shouldTriggerReview ''opened''
     (Some \<lparr>Draft = Some True, Title = None, Body = None, Number = None,
            ChangedFiles = None, Additions = None, Deletions = None\<rparr>) = False"
  using shouldTriggerReview_decision [of "''opened''"
      "Some \<lparr>Draft = Some False, Title = None, Body = None, Number = None,
             ChangedFiles = None, Additions = None, Deletions = None\<rparr>"]
    shouldTriggerReview_decision [of "''ready_for_review''" None]
    shouldTriggerReview_decision [of "''synchronize''" None]
    shouldTriggerReview_decision [of "''opened''"
      "Some \<lparr>Draft = Some True, Title = None, Body = None, Number = None,
             ChangedFiles = None, Additions = None, Deletions = None\<rparr>"]
  by (simp add: GetDraft_def getter_def)


section \<open>Facts about the library functions\<close>

lemma Index_bound: "Index s sub = Some i \<Longrightarrow> i + length sub \<le> length s"
  by (induction s arbitrary: i) (auto split: if_splits dest: prefix_length_le)

lemma Index_prefix_drop: "Index s sub = Some i \<Longrightarrow> prefix sub (drop i s)"
  by (induction s arbitrary: i) (auto split: if_splits)

lemma Index_decompose:
  assumes "Index s sub = Some i"
  shows "s = take i s @ sub @ drop (i + length sub) s"
proof -
  from Index_prefix_drop [OF assms] obtain zs where zs: "drop i s = sub @ zs"
    by (auto simp: prefix_def)
  then have "drop (length sub) (drop i s) = zs"
    by simp
  then have "drop (i + length sub) s = zs"
    by (simp add: add.commute)
  with zs have "drop i s = sub @ drop (i + length sub) s"
    by simp
  then show ?thesis
    by (metis append_take_drop_id)
qed

lemma Index_at_prefix: "prefix sub s \<Longrightarrow> Index s sub = Some 0"
  by (cases s) auto

lemma Index_None_append: "Index (ps @ sub @ ss) sub \<noteq> None"
  by (induction ps) (auto simp: Index_at_prefix)

lemma Contains_iff: "Contains s sub \<longleftrightarrow> (\<exists>ps ss. s = ps @ sub @ ss)"
proof
  assume "Contains s sub"
  then obtain i where "Index s sub = Some i"
    by (auto simp: Contains_def)
  from Index_decompose [OF this] show "\<exists>ps ss. s = ps @ sub @ ss"
    by blast
next
  assume "\<exists>ps ss. s = ps @ sub @ ss"
  then show "Contains s sub"
    using Index_None_append by (auto simp: Contains_def)
qed

lemma Index_first:
  assumes "sub \<noteq> []" and "\<not> Contains (pre @ butlast sub) sub"
  shows "Index (pre @ sub @ rest) sub = Some (length pre)"
  using assms(2)
proof (induction pre)
  case Nil
  with assms(1) show ?case
    by (cases sub) auto
next
  case (Cons c pre)
  from Cons.prems have np: "\<not> prefix sub (c # pre @ butlast sub)"
    and nc: "\<not> Contains (pre @ butlast sub) sub"
    by (auto simp: Contains_def split: if_splits)
  have "\<not> prefix sub (c # pre @ sub @ rest)"
  proof
    assume p: "prefix sub (c # pre @ sub @ rest)"
    have "c # pre @ sub @ rest = (c # pre @ butlast sub) @ (last sub # rest)"
      using assms(1) by simp
    with p have "prefix sub ((c # pre @ butlast sub) @ (last sub # rest))"
      by simp
    moreover have "length sub \<le> length (c # pre @ butlast sub)"
      using assms(1) by simp
    ultimately have "prefix sub (c # pre @ butlast sub)"
      by (metis prefix_length_prefix prefixI le_refl prefix_order.order_refl append.assoc)
    with np show False by simp
  qed
  with Cons.IH [OF nc] show ?case
    by simp
qed


lemma LastIndex_None_iff: "LastIndex s sub = None \<longleftrightarrow> Index s sub = None"
  by (induction s) (auto split: option.splits)

lemma LastIndex_bound: "LastIndex s sub = Some j \<Longrightarrow> j + length sub \<le> length s"
  by (induction s arbitrary: j) (auto split: option.splits if_splits dest: prefix_length_le)

lemma Index_le_LastIndex:
  "Index s sub = Some i \<Longrightarrow> LastIndex s sub = Some j \<Longrightarrow> i \<le> j"
  by (induction s arbitrary: i j) (auto split: option.splits if_splits)

lemma LastIndex_last:
  assumes "sub \<noteq> []" and "\<not> Contains (tl sub @ rest) sub"
  shows "LastIndex (pre @ sub @ rest) sub = Some (length pre)"
proof (induction pre)
  case Nil
  from assms obtain c cs where sub: "sub = c # cs"
    by (cases sub) auto
  with assms(2) have "LastIndex (cs @ rest) sub = None"
    by (simp add: LastIndex_None_iff Contains_def)
  with sub show ?case
    by simp
next
  case (Cons c pre)
  then show ?case
    by simp
qed

lemma Index_skip:
  assumes "sub \<noteq> []" and "hd sub \<notin> set m"
  shows "Index (m @ r) sub = map_option (\<lambda>i. length m + i) (Index r sub)"
  using assms(2)
proof (induction m)
  case Nil
  show ?case
    by (simp add: option.map_ident)
next
  case (Cons c m)
  from Cons.prems assms(1) have "\<not> prefix sub (c # m @ r)"
    by (cases sub) auto
  with Cons show ?case
    by (simp add: option.map_comp comp_def)
qed

lemma Count_None: "sep \<noteq> [] \<Longrightarrow> Index s sep = None \<Longrightarrow> Count s sep = 0"
  by (simp add: Count.simps)

lemma Count_Some:
  "sep \<noteq> [] \<Longrightarrow> Index s sep = Some m \<Longrightarrow>
   Count s sep = Suc (Count (drop (m + length sep) s) sep)"
  by (subst Count.simps) simp

lemma Split_None: "sep \<noteq> [] \<Longrightarrow> Index s sep = None \<Longrightarrow> Split s sep = [s]"
  by (simp add: Split_def Count_None)

lemma Split_Some:
  "sep \<noteq> [] \<Longrightarrow> Index s sep = Some m \<Longrightarrow>
   Split s sep = take m s # Split (drop (m + length sep) s) sep"
  by (simp add: Split_def Count_Some)

lemma Split_first:
  assumes "sep \<noteq> []" and "\<not> Contains (pre @ butlast sep) sep"
  shows "Split (pre @ sep @ rest) sep = pre # Split rest sep"
  using Split_Some [OF assms(1) Index_first [OF assms, of rest]] by simp

lemma extractSection_eq:
  "extractSection text h =
     Inr (case Index text h of
            None \<Rightarrow> []
          | Some s \<Rightarrow>
              (case Index (drop s text) ''$$'' of
                 None \<Rightarrow> []
               | Some d \<Rightarrow>
                   (case Index (drop (d + s + 2) text) ''$$'' of
                      None \<Rightarrow> []
                    | Some e \<Rightarrow> TrimSpace (take e (drop (d + s + 2) text)))))"
proof (cases "Index text h")
  case None
  then show ?thesis
    by (simp add: extractSection_def)
next
  case (Some s)
  from Index_bound [OF Some] have s: "s \<le> length text"
    by simp
  show ?thesis
  proof (cases "Index (drop s text) ''$$''")
    case None
    with Some s show ?thesis
      by (simp add: extractSection_def bindP_def sliceFrom_def slice_def)
  next
    case d: (Some d)
    from Index_bound [OF d] s have ds: "d + s + 2 \<le> length text"
      by simp
    show ?thesis
    proof (cases "Index (drop (d + s + 2) text) ''$$''")
      case None
      with Some d s ds show ?thesis
        by (simp add: extractSection_def bindP_def sliceFrom_def slice_def Let_def)
    next
      case e: (Some e)
      from Index_bound [OF e] ds have "e + (d + s + 2) \<le> length text"
        by simp
      with Some d e s ds show ?thesis
        by (simp add: extractSection_def bindP_def sliceFrom_def slice_def Let_def)
    qed
  qed
qed


lemma extractSection_absent: "\<not> Contains t m \<Longrightarrow> extractSection t m = Inr []"
  by (simp add: extractSection_eq Contains_def)

lemma extractSection_found:
  assumes "m \<noteq> []" and "CHR ''$'' \<notin> set m" and "\<not> Contains (pre @ butlast m) m"
  shows "extractSection (pre @ m @ rest) m =
     Inr (case Index rest ''$$'' of
            None \<Rightarrow> []
          | Some d \<Rightarrow>
              (case Index (drop (d + 2) rest) ''$$'' of
                 None \<Rightarrow> []
               | Some e \<Rightarrow> TrimSpace (take e (drop (d + 2) rest))))"
proof -
  have i: "Index (pre @ m @ rest) m = Some (length pre)"
    using assms(1,3) by (rule Index_first)
  have j: "Index (m @ rest) ''$$'' = map_option (\<lambda>i. length m + i) (Index rest ''$$'')"
    using assms(2) by (intro Index_skip) simp_all
  show ?thesis
  proof (cases "Index rest ''$$''")
    case None
    with i j show ?thesis
      by (simp add: extractSection_eq)
  next
    case (Some d)
    from Index_bound [OF Some] have "d + 2 \<le> length rest"
      by simp
    then have e2: "drop (length m + d + length pre + 2) (pre @ m @ rest) = drop (d + 2) rest"
      by simp
    from j Some have e1: "Index (drop (length pre) (pre @ m @ rest)) ''$$'' = Some (length m + d)"
      by simp
    show ?thesis
      by (simp only: extractSection_eq i e1 e2 Some option.case)
  qed
qed

lemma Index_delim_first:
  "\<not> Contains (a @ ''$'') ''$$'' \<Longrightarrow> Index (a @ ''$$'' @ b) ''$$'' = Some (length a)"
  using Index_first [of "''$$''" a b] by simp

lemma extractSection_noDelim:
  assumes "m \<noteq> []" and "CHR ''$'' \<notin> set m" and "\<not> Contains (pre @ butlast m) m"
    and "\<not> Contains rest ''$$''"
  shows "extractSection (pre @ m @ rest) m = Inr []"
proof -
  have "Index rest ''$$'' = None"
    using assms(4) by (simp add: Contains_def)
  then show ?thesis
    by (simp only: extractSection_found [OF assms(1-3)] option.case)
qed

lemma extractSection_oneDelim:
  assumes "m \<noteq> []" and "CHR ''$'' \<notin> set m" and "\<not> Contains (pre @ butlast m) m"
    and "\<not> Contains (a @ ''$'') ''$$''" and "\<not> Contains b ''$$''"
  shows "extractSection (pre @ m @ a @ ''$$'' @ b) m = Inr []"
proof -
  have "Index (a @ ''$$'' @ b) ''$$'' = Some (length a)"
    using assms(4) by (rule Index_delim_first)
  moreover have "drop (length a + 2) (a @ ''$$'' @ b) = b"
    by simp
  moreover have "Index b ''$$'' = None"
    using assms(5) by (simp add: Contains_def)
  ultimately show ?thesis
    by (simp only: extractSection_found [OF assms(1-3)] option.case)
qed

lemma extractSection_pair:
  assumes "m \<noteq> []" and "CHR ''$'' \<notin> set m" and "\<not> Contains (pre @ butlast m) m"
    and "\<not> Contains (a @ ''$'') ''$$''" and "\<not> Contains (b @ ''$'') ''$$''"
  shows "extractSection (pre @ m @ a @ ''$$'' @ b @ ''$$'' @ c) m = Inr (TrimSpace b)"
proof -
  have "Index (a @ ''$$'' @ b @ ''$$'' @ c) ''$$'' = Some (length a)"
    using assms(4) by (rule Index_delim_first)
  moreover have "drop (length a + 2) (a @ ''$$'' @ b @ ''$$'' @ c) = b @ ''$$'' @ c"
    by simp
  moreover have "Index (b @ ''$$'' @ c) ''$$'' = Some (length b)"
    using assms(5) by (rule Index_delim_first)
  moreover have "take (length b) (b @ ''$$'' @ c) = b"
    by simp
  ultimately show ?thesis
    by (simp only: extractSection_found [OF assms(1-3)] option.case)
qed

lemma TrimSpace_Hello: "TrimSpace ''Hello'' = ''Hello''"
  by (simp add: TrimSpace_def TrimLeft.simps TrimRight.simps leadingSpace_def
      trailingSpace_def spaceRunes_def)

lemma parse_summary_only:
  assumes first: "\<not> Contains (p @ ''SUMMARY'') ''SUMMARY:''"
    and poem: "\<not> Contains (p @ ''SUMMARY: $$Hello$$'' @ q) ''POEM:''"
    and comment: "\<not> Contains (p @ ''SUMMARY: $$Hello$$'' @ q) ''PR_COMMENT:''"
  shows "parseClaudeResponse (p @ ''SUMMARY: $$Hello$$'' @ q) diff =
            Inr \<lparr>Summary = branding @ ''Hello'', Comments = []\<rparr>"
proof -
  have "\<not> Contains (p @ butlast ''SUMMARY:'') ''SUMMARY:''"
    using first by simp
  moreover have "\<not> Contains ('' '' @ ''$'') ''$$''" "\<not> Contains (''Hello'' @ ''$'') ''$$''"
    by (simp_all add: Contains_def)
  ultimately have "extractSection (p @ ''SUMMARY:'' @ '' '' @ ''$$'' @ ''Hello'' @ ''$$'' @ q)
        ''SUMMARY:'' = Inr (TrimSpace ''Hello'')"
    by (intro extractSection_pair) simp_all
  then have s: "extractSection (p @ ''SUMMARY: $$Hello$$'' @ q) ''SUMMARY:'' = Inr ''Hello''"
    by (simp add: TrimSpace_Hello)
  have po: "extractSection (p @ ''SUMMARY: $$Hello$$'' @ q) ''POEM:'' = Inr []"
    using poem by (rule extractSection_absent)
  have sp: "Split (p @ ''SUMMARY: $$Hello$$'' @ q) ''PR_COMMENT:'' = [p @ ''SUMMARY: $$Hello$$'' @ q]"
    using comment by (simp add: Split_None Contains_def)
  show ?thesis
    unfolding parseClaudeResponse_def s po sp
    by (simp add: bindP_def)
qed


text \<open>
  Claim C3. For the markers \<open>SUMMARY:\<close> and \<open>POEM:\<close>, \<open>extractSection\<close> never fails. It
  gives the empty string when the marker is absent, when no \<open>$$\<close> follows the first
  occurrence of the marker, and when only one \<open>$$\<close> follows it. Otherwise it gives the
  white-space-trimmed text between the first \<open>$$\<close> after the first occurrence of the marker
  and the next \<open>$$\<close> after that. In particular a reply that contains
  \<open>SUMMARY: $$Hello$$\<close> and no other marker parses to the branding followed by \<open>Hello\<close>
  and to no comments.
\<close>

theorem extractSection_section:
  assumes "m = ''SUMMARY:'' \<or> m = ''POEM:''"
  shows "(\<exists>v. extractSection t m = Inr v)
    \<and> (\<not> Contains t m \<longrightarrow> extractSection t m = Inr [])
    \<and> (\<not> Contains (pre @ butlast m) m \<and> \<not> Contains rest ''$$'' \<longrightarrow>
          extractSection (pre @ m @ rest) m = Inr [])
    \<and> (\<not> Contains (pre @ butlast m) m \<and> \<not> Contains (a @ ''$'') ''$$'' \<and> \<not> Contains b ''$$'' \<longrightarrow>
          extractSection (pre @ m @ a @ ''$$'' @ b) m = Inr [])
    \<and> (\<not> Contains (pre @ butlast m) m \<and> \<not> Contains (a @ ''$'') ''$$''
           \<and> \<not> Contains (b @ ''$'') ''$$'' \<longrightarrow>
          extractSection (pre @ m @ a @ ''$$'' @ b @ ''$$'' @ c) m = Inr (TrimSpace b))
    \<and> (\<not> Contains (p @ ''SUMMARY'') ''SUMMARY:''
           \<and> \<not> Contains (p @ ''SUMMARY: $$Hello$$'' @ q) ''POEM:''
           \<and> \<not> Contains (p @ ''SUMMARY: $$Hello$$'' @ q) ''PR_COMMENT:'' \<longrightarrow>
          parseClaudeResponse (p @ ''SUMMARY: $$Hello$$'' @ q) diff =
            Inr \<lparr>Summary = branding @ ''Hello'', Comments = []\<rparr>)"
proof -
  from assms have m: "m \<noteq> []" "CHR ''$'' \<notin> set m"
    by auto
  have "\<exists>v. extractSection t m = Inr v"
    by (simp add: extractSection_eq)
  moreover have "\<not> Contains t m \<longrightarrow> extractSection t m = Inr []"
    by (simp add: extractSection_absent)
  ultimately show ?thesis
    using extractSection_noDelim [OF m] extractSection_oneDelim [OF m]
      extractSection_pair [OF m] parse_summary_only
    by blast
qed

theorem extractSection_section_witness:
  "extractSection ''intro SUMMARY: $$ Looks good $$ POEM: $$roses$$'' ''SUMMARY:'' = Inr ''Looks good''
   \<and> extractSection ''intro SUMMARY: $$ Looks good $$ POEM: $$roses$$'' ''POEM:'' = Inr ''roses''
   \<and> extractSection ''no sections here'' ''POEM:'' = Inr []
   \<and> extractSection ''SUMMARY: none'' ''SUMMARY:'' = Inr []
   \<and> extractSection ''SUMMARY: $$ open'' ''SUMMARY:'' = Inr []
   \<and> parseClaudeResponse ''SUMMARY: $$Hello$$'' [] = Inr \<lparr>Summary = branding @ ''Hello'', Comments = []\<rparr>"
  using extractSection_section [of "''SUMMARY:''" "[]" "''intro ''" "[]" "'' ''" "'' Looks good ''" "'' POEM: $$roses$$''" "[]" "[]" "[]"]
    extractSection_section [of "''POEM:''" "''no sections here''" "''intro SUMMARY: $$ Looks good $$ ''" "[]" "'' ''" "''roses''" "[]" "[]" "[]" "[]"]
    extractSection_section [of "''SUMMARY:''" "[]" "[]" "'' none''" "'' ''" "'' open''" "[]" "[]" "[]" "[]"]
  by (simp add: Contains_def TrimSpace_def TrimLeft.simps TrimRight.simps leadingSpace_def
      trailingSpace_def spaceRunes_def)

section \<open>Decoding the model's reply\<close>

lemma parsePRCommentBlock_panic_iff:
  "(\<exists>e. parsePRCommentBlock block = Inl e) \<longleftrightarrow> delimitersOverlap block"
proof (cases "Index block ''$$''")
  case None
  then show ?thesis
    by (simp add: parsePRCommentBlock_def delimitersOverlap_def)
next
  case i: (Some i)
  then obtain j where j: "LastIndex block ''$$'' = Some j"
    using LastIndex_None_iff [of block "''$$''"] by (cases "LastIndex block ''$$''") auto
  from Index_bound [OF i] have ib: "i \<le> length block"
    by simp
  from LastIndex_bound [OF j] have jb: "j \<le> length block"
    by simp
  from Index_le_LastIndex [OF i j] have ij: "i \<le> j" .
  show ?thesis
  proof (cases "j \<le> i")
    case True
    with i j show ?thesis
      by (simp add: parsePRCommentBlock_def delimitersOverlap_def)
  next
    case False
    show ?thesis
    proof (cases "j = Suc i")
      case True
      with i j False ib show ?thesis
        by (simp add: parsePRCommentBlock_def delimitersOverlap_def bindP_def sliceTo_def
            slice_def Let_def)
    next
      case ne: False
      with False have "i + 2 \<le> j"
        by simp
      with i j False ib jb ne show ?thesis
        by (simp add: parsePRCommentBlock_def delimitersOverlap_def bindP_def sliceTo_def
            slice_def Let_def split: option.splits)
    qed
  qed
qed

lemma genSplit_length: "length (genSplit s sep n) \<le> Suc n"
  by (induction n arbitrary: s) (auto split: option.splits)

lemma SplitN_colon_length: "length (SplitN s '':'' 3) \<le> 3"
  using genSplit_length [of s "'':''" 2] by (simp add: SplitN_def)

lemma parsePRCommentBlock_Some:
  assumes "parsePRCommentBlock block = Inr (Some c)"
  shows "Side c = ''RIGHT'' \<and>
    (\<exists>i parts. Index block ''$$'' = Some i \<and> SplitN (TrimSpace (take i block)) '':'' 3 = parts
       \<and> length parts = 3 \<and> Atoi (TrimSpace (parts ! 1)) = Some (Line c))"
proof -
  from assms obtain i where i: "Index block ''$$'' = Some i"
    by (cases "Index block ''$$''") (auto simp: parsePRCommentBlock_def)
  from Index_bound [OF i] have ib: "i \<le> length block"
    by simp
  then have h: "sliceTo block i = Inr (take i block)"
    by (simp add: sliceTo_def slice_def)
  from assms i h SplitN_colon_length [of "TrimSpace (take i block)"] show ?thesis
    by (auto simp: parsePRCommentBlock_def bindP_def Let_def
        split: option.splits if_splits sum.splits)
qed

lemma parseBlocks_Inr:
  "\<forall>p\<in>set ps. \<not> delimitersOverlap p \<Longrightarrow>
   parseBlocks ps acc = Inr (acc @ concat (map blockComments ps))"
proof (induction ps arbitrary: acc)
  case Nil
  then show ?case by simp
next
  case (Cons p ps)
  from Cons.prems have "\<not> delimitersOverlap p"
    by simp
  then obtain v where v: "parsePRCommentBlock p = Inr v"
    using parsePRCommentBlock_panic_iff [of p] by (cases "parsePRCommentBlock p") auto
  with Cons show ?case
    by (cases v) (simp_all add: blockComments_def)
qed

lemma parseBlocks_Inl:
  "\<exists>p\<in>set ps. delimitersOverlap p \<Longrightarrow> \<exists>e. parseBlocks ps acc = Inl e"
proof (induction ps arbitrary: acc)
  case Nil
  then show ?case by simp
next
  case (Cons p ps)
  show ?case
  proof (cases "parsePRCommentBlock p")
    case (Inl e)
    then show ?thesis by simp
  next
    case (Inr v)
    then have "\<not> delimitersOverlap p"
      using parsePRCommentBlock_panic_iff [of p] by auto
    with Cons.prems have "\<exists>p\<in>set ps. delimitersOverlap p"
      by simp
    from Cons.IH [OF this] Inr show ?thesis
      by (cases v) simp_all
  qed
qed

lemma parseClaudeResponse_eq:
  assumes "\<forall>f\<in>set (drop 1 (Split t ''PR_COMMENT:'')). \<not> delimitersOverlap f"
  shows "\<exists>summary. parseClaudeResponse t d =
     Inr \<lparr>Summary = branding @ summary,
          Comments = concat (map blockComments (drop 1 (Split t ''PR_COMMENT:'')))\<rparr>"
proof -
  obtain s where s: "extractSection t ''SUMMARY:'' = Inr s"
    using extractSection_eq by blast
  obtain p where p: "extractSection t ''POEM:'' = Inr p"
    using extractSection_eq by blast
  have pb: "parseBlocks (drop 1 (Split t ''PR_COMMENT:'')) [] =
      Inr (concat (map blockComments (drop 1 (Split t ''PR_COMMENT:''))))"
    using parseBlocks_Inr [OF assms, of "[]"] by simp
  show ?thesis
    unfolding parseClaudeResponse_def Let_def s p pb bindP_def
    by simp
qed

lemma parseClaudeResponse_panics:
  assumes "\<exists>f\<in>set (drop 1 (Split t ''PR_COMMENT:'')). delimitersOverlap f"
  shows "\<exists>e. parseClaudeResponse t d = Inl e"
proof -
  from parseBlocks_Inl [OF assms] obtain e
    where "parseBlocks (drop 1 (Split t ''PR_COMMENT:'')) [] = Inl e"
    by blast
  moreover obtain s where "extractSection t ''SUMMARY:'' = Inr s"
    using extractSection_eq by blast
  moreover obtain p where "extractSection t ''POEM:'' = Inr p"
    using extractSection_eq by blast
  ultimately show ?thesis
    unfolding parseClaudeResponse_def Let_def bindP_def
    by simp
qed


lemma Index_colon: "CHR '':'' \<notin> set p \<Longrightarrow> Index (p @ '':'' @ r) '':'' = Some (length p)"
  using Index_skip [of "'':''" p "'':'' @ r"] by simp

lemma SplitN_three:
  assumes "CHR '':'' \<notin> set p0" and "CHR '':'' \<notin> set p1"
  shows "SplitN (p0 @ '':'' @ p1 @ '':'' @ p2) '':'' 3 = [p0, p1, p2]"
proof -
  have "genSplit (p0 @ '':'' @ p1 @ '':'' @ p2) '':'' (Suc (Suc 0)) =
      p0 # genSplit (p1 @ '':'' @ p2) '':'' (Suc 0)"
    using Index_colon [OF assms(1), of "p1 @ '':'' @ p2"] by simp
  also have "genSplit (p1 @ '':'' @ p2) '':'' (Suc 0) = [p1, p2]"
    using Index_colon [OF assms(2), of p2] by simp
  finally show ?thesis
    by (simp add: SplitN_def numeral_2_eq_2)
qed

lemma parsePRCommentBlock_wellformed:
  assumes first: "\<not> Contains (hdr @ ''$'') ''$$''"
    and last: "\<not> Contains (''$'' @ rest) ''$$''"
    and header: "TrimSpace hdr = p0 @ '':'' @ p1 @ '':'' @ p2"
    and colons: "CHR '':'' \<notin> set p0" "CHR '':'' \<notin> set p1"
    and line: "Atoi (TrimSpace p1) = Some n"
  shows "parsePRCommentBlock (hdr @ ''$$'' @ mid @ ''$$'' @ rest) =
     Inr (Some \<lparr>Path = TrimSpace p0, Line = n,
                Body = TrimSpace p2 @ ''\<newline>\<newline>'' @ TrimSpace mid, Side = ''RIGHT''\<rparr>)"
proof -
  let ?block = "hdr @ ''$$'' @ mid @ ''$$'' @ rest"
  have i: "Index ?block ''$$'' = Some (length hdr)"
    using first by (rule Index_delim_first)
  have "LastIndex ((hdr @ ''$$'' @ mid) @ ''$$'' @ rest) ''$$'' = Some (length (hdr @ ''$$'' @ mid))"
    using last by (intro LastIndex_last) simp_all
  then have j: "LastIndex ?block ''$$'' = Some (length hdr + 2 + length mid)"
    by simp
  have h: "sliceTo ?block (length hdr) = Inr hdr"
    by (simp add: sliceTo_def slice_def)
  have c: "slice ?block (length hdr + 2) (length hdr + 2 + length mid) = Inr mid"
    by (simp add: slice_def)
  have parts: "SplitN (TrimSpace hdr) '':'' 3 = [p0, p1, p2]"
    unfolding header using colons by (rule SplitN_three)
  show ?thesis
    unfolding parsePRCommentBlock_def i j option.case h c bindP_def sum.case Let_def parts
    by (simp add: line)
qed

lemmas eval_defs =
  parseClaudeResponse_def extractSection_def parsePRCommentBlock_def bindP_def
  slice_def sliceFrom_def sliceTo_def Split_def SplitN_def Count.simps Let_def
  TrimSpace_def TrimLeft.simps TrimRight.simps leadingSpace_def trailingSpace_def spaceRunes_def
  Atoi_def isDigit_def digitVal_def branding_def poemHeading_def numeral_2_eq_2 numeral_3_eq_3


lemma exampleComment_split: "exampleComment = ''PR_COMMENT:'' @ exampleBlock"
  by (simp add: exampleComment_def exampleBlock_def)

lemma exampleBlock_parse: "parsePRCommentBlock exampleBlock = Inr (Some exampleResult)"
  by (simp add: exampleBlock_def exampleResult_def eval_defs)

lemma exampleBlock_facts:
  "Index exampleBlock ''PR_COMMENT:'' = None" "\<not> delimitersOverlap exampleBlock"
  by (simp_all add: exampleBlock_def delimitersOverlap_def)

lemma example_in_context:
  assumes "\<not> Contains (pre @ ''PR_COMMENT'') ''PR_COMMENT:''"
  shows "\<exists>summary. parseClaudeResponse (pre @ exampleComment) diff =
     Inr \<lparr>Summary = branding @ summary, Comments = [exampleResult]\<rparr>"
proof -
  have "Split (pre @ ''PR_COMMENT:'' @ exampleBlock) ''PR_COMMENT:'' =
      pre # Split exampleBlock ''PR_COMMENT:''"
    using assms by (intro Split_first) simp_all
  then have sp: "Split (pre @ exampleComment) ''PR_COMMENT:'' = [pre, exampleBlock]"
    by (simp add: exampleComment_split Split_None exampleBlock_facts)
  have "\<forall>f\<in>set (drop 1 (Split (pre @ exampleComment) ''PR_COMMENT:'')). \<not> delimitersOverlap f"
    by (simp add: sp exampleBlock_facts)
  from parseClaudeResponse_eq [OF this, of diff] show ?thesis
    by (simp add: sp blockComments_def exampleBlock_parse)
qed

text \<open>
  Claim C1. A block that follows a \<open>PR_COMMENT:\<close> marker and has a first and a last \<open>$$\<close>,
  whose header (the trimmed text before the first \<open>$$\<close>) splits at its first two colons
  into three parts of which the second, trimmed, is an integer for \<open>strconv.Atoi\<close>, parses
  to one comment: its path is the trimmed first part, its line that integer, its side
  \<open>RIGHT\<close> and its body the trimmed category tail, two newlines and the trimmed text
  between the first and the last \<open>$$\<close>. The comments of a reply are the comments of its
  blocks, in order, whenever no block has overlapping delimiters. In particular a reply
  that ends with \<open>PR_COMMENT:main.go:45: ... **issue**: $$Fix this$$\<close>, with no marker
  before it, yields the one comment \<open>exampleResult\<close>.
\<close>

theorem parsePRCommentBlock_comment:
  "(\<not> Contains (hdr @ ''$'') ''$$'' \<and> \<not> Contains (''$'' @ rest) ''$$''
      \<and> TrimSpace hdr = p0 @ '':'' @ p1 @ '':'' @ p2
      \<and> CHR '':'' \<notin> set p0 \<and> CHR '':'' \<notin> set p1
      \<and> Atoi (TrimSpace p1) = Some n \<longrightarrow>
    parsePRCommentBlock (hdr @ ''$$'' @ mid @ ''$$'' @ rest) =
      Inr (Some \<lparr>Path = TrimSpace p0, Line = n,
                 Body = TrimSpace p2 @ ''\<newline>\<newline>'' @ TrimSpace mid, Side = ''RIGHT''\<rparr>))
   \<and> ((\<forall>f\<in>set (drop 1 (Split claudeText ''PR_COMMENT:'')). \<not> delimitersOverlap f) \<longrightarrow>
       (\<exists>summary. parseClaudeResponse claudeText diff =
          Inr \<lparr>Summary = branding @ summary,
               Comments = concat (map blockComments (drop 1 (Split claudeText ''PR_COMMENT:'')))\<rparr>))
   \<and> (\<not> Contains (pre @ ''PR_COMMENT'') ''PR_COMMENT:'' \<longrightarrow>
       (\<exists>summary. parseClaudeResponse (pre @ exampleComment) diff =
          Inr \<lparr>Summary = branding @ summary, Comments = [exampleResult]\<rparr>))"
  using parsePRCommentBlock_wellformed [of hdr rest p0 p1 p2 n mid]
    parseClaudeResponse_eq [of claudeText diff] example_in_context [of pre diff]
  by blast

theorem parsePRCommentBlock_comment_witness:
  "parsePRCommentBlock exampleBlock = Inr (Some exampleResult)
   \<and> parseClaudeResponse exampleComment [] =
       Inr \<lparr>Summary = branding, Comments = blockComments exampleBlock\<rparr>
   \<and> blockComments exampleBlock = [exampleResult]"
proof -
  let ?hdr = "''main.go:45: '' @ [CHR 0xE2, CHR 0x9A, CHR 0xA0, CHR 0xEF, CHR 0xB8, CHR 0x8F] @ '' **issue**: ''"
  let ?p2 = "'' '' @ [CHR 0xE2, CHR 0x9A, CHR 0xA0, CHR 0xEF, CHR 0xB8, CHR 0x8F] @ '' **issue**:''"
  note inst = parsePRCommentBlock_comment [where hdr = ?hdr and rest = "[]" and ?p0.0 = "''main.go''"
      and ?p1.0 = "''45''" and ?p2.0 = ?p2 and n = 45 and mid = "''Fix this''"
      and claudeText = exampleComment and diff = "[]" and pre = "[]"]
  have block: "parsePRCommentBlock exampleBlock = Inr (Some exampleResult)"
    using inst
    by (simp add: exampleBlock_def exampleResult_def Contains_def TrimSpace_def TrimLeft.simps
        TrimRight.simps leadingSpace_def trailingSpace_def spaceRunes_def Atoi_def isDigit_def
        digitVal_def)
  then have bc: "blockComments exampleBlock = [exampleResult]"
    by (simp add: blockComments_def)
  have sp: "Split exampleComment ''PR_COMMENT:'' = [[], exampleBlock]"
    by (simp add: exampleComment_def exampleBlock_def Split_def Count.simps)
  from inst have "\<exists>summary. parseClaudeResponse exampleComment [] =
      Inr \<lparr>Summary = branding @ summary, Comments = blockComments exampleBlock\<rparr>"
    by (simp add: sp exampleBlock_facts)
  moreover have "extractSection exampleComment ''SUMMARY:'' = Inr []"
      "extractSection exampleComment ''POEM:'' = Inr []"
    by (simp_all add: extractSection_absent Contains_def exampleComment_def)
  ultimately have "parseClaudeResponse exampleComment [] =
      Inr \<lparr>Summary = branding, Comments = blockComments exampleBlock\<rparr>"
    by (auto simp: parseClaudeResponse_def bindP_def Let_def split: sum.splits)
  with block bc show ?thesis
    by simp
qed


text \<open>
  Claim C2. A block with fewer than two \<open>$$\<close> delimiters should contribute no comment and
  leave the other blocks alone. A block whose only dollars are three in a row has one
  delimiter, yet \<open>LastIndex\<close> finds a second one overlapping the first, the test
  \<open>endDelim <= startDelim\<close> lets it through and the slice of the content panics: the reply
  below loses the comment of its first, well-formed block, which the same reply with two
  dollars keeps.
\<close>

theorem parseClaudeResponse_overlapping_delimiters:
  "parseClaudeResponse ''PR_COMMENT:a.go:1: ok $$fine$$ PR_COMMENT:b.go:2: bad $$$'' [] =
     Inl (SliceBoundsOutOfRange 14 13)
   \<and> parseClaudeResponse ''PR_COMMENT:a.go:1: ok $$fine$$ PR_COMMENT:b.go:2: bad $$'' [] =
     Inr \<lparr>Summary = branding,
          Comments = [\<lparr>Path = ''a.go'', Line = 1, Body = ''ok\<newline>\<newline>fine'',
                       Side = ''RIGHT''\<rparr>]\<rparr>"
  by (simp add: eval_defs)

text \<open>
  Claim C8, as stated, fails: the line field \<open>0\<close> is an integer for \<open>strconv.Atoi\<close>, and
  the comment is produced with line number zero.
\<close>

theorem parseClaudeResponse_line_zero:
  "parseClaudeResponse ''PR_COMMENT:a.go:0: x $$y$$'' [] =
     Inr \<lparr>Summary = branding,
          Comments = [\<lparr>Path = ''a.go'', Line = 0, Body = ''x\<newline>\<newline>y'',
                       Side = ''RIGHT''\<rparr>]\<rparr>
   \<and> \<not> 0 < sint (0 :: go_int)"
  by (simp add: eval_defs)

lemma parseClaudeResponse_Inr_no_overlap:
  assumes "parseClaudeResponse t d = Inr r"
  shows "\<forall>f\<in>set (drop 1 (Split t ''PR_COMMENT:'')). \<not> delimitersOverlap f"
proof (rule ccontr)
  assume "\<not> ?thesis"
  then have "\<exists>f\<in>set (drop 1 (Split t ''PR_COMMENT:'')). delimitersOverlap f"
    by blast
  from parseClaudeResponse_panics [OF this, of d] assms show False
    by auto
qed

lemma blockComments_member:
  "c \<in> set (blockComments f) \<Longrightarrow> parsePRCommentBlock f = Inr (Some c)"
  by (auto simp: blockComments_def split: sum.splits option.splits)

text \<open>
  Claim C8, amended. Every comment of a parsed reply has side \<open>RIGHT\<close> and comes from one
  block of the reply; its line number is the single integer that \<open>strconv.Atoi\<close> reads
  from the trimmed second field of that block's header, whatever its sign.
\<close>

theorem parseClaudeResponse_comment_shape:
  assumes "parseClaudeResponse t d = Inr r" and "c \<in> set (Comments r)"
  shows "Side c = ''RIGHT'' \<and>
    (\<exists>f\<in>set (drop 1 (Split t ''PR_COMMENT:'')). \<exists>i.
        parsePRCommentBlock f = Inr (Some c) \<and> Index f ''$$'' = Some i \<and>
        Atoi (TrimSpace (SplitN (TrimSpace (take i f)) '':'' 3 ! 1)) = Some (Line c))"
proof -
  from parseClaudeResponse_eq [OF parseClaudeResponse_Inr_no_overlap [OF assms(1)], of d] assms(1)
  have "Comments r = concat (map blockComments (drop 1 (Split t ''PR_COMMENT:'')))"
    by auto
  with assms(2) obtain f where f: "f \<in> set (drop 1 (Split t ''PR_COMMENT:''))"
    and c: "c \<in> set (blockComments f)"
    by auto
  from blockComments_member [OF c] have p: "parsePRCommentBlock f = Inr (Some c)" .
  from parsePRCommentBlock_Some [OF p] f p show ?thesis
    by blast
qed

theorem parseClaudeResponse_comment_shape_witness:
  "Side \<lparr>Path = ''a.go'', Line = 0, Body = ''x\<newline>\<newline>y'', Side = ''RIGHT''\<rparr> = ''RIGHT''
   \<and> (\<exists>f\<in>set (drop 1 (Split ''PR_COMMENT:a.go:0: x $$y$$'' ''PR_COMMENT:'')). \<exists>i.
        Index f ''$$'' = Some i \<and>
        Atoi (TrimSpace (SplitN (TrimSpace (take i f)) '':'' 3 ! 1)) = Some 0)"
proof -
  have "parseClaudeResponse ''PR_COMMENT:a.go:0: x $$y$$'' [] =
     Inr \<lparr>Summary = branding,
          Comments = [\<lparr>Path = ''a.go'', Line = 0, Body = ''x\<newline>\<newline>y'',
                       Side = ''RIGHT''\<rparr>]\<rparr>"
    by (simp add: eval_defs)
  from parseClaudeResponse_comment_shape [OF this,
      of "\<lparr>Path = ''a.go'', Line = 0, Body = ''x\<newline>\<newline>y'', Side = ''RIGHT''\<rparr>"]
  show ?thesis
    by auto
qed

lemma branding_nonempty: "branding \<noteq> []"
  by (simp add: branding_def)

lemma parse_no_markers:
  assumes "\<not> Contains t ''SUMMARY:''" and "\<not> Contains t ''POEM:''"
    and "\<not> Contains t ''PR_COMMENT:''"
  shows "parseClaudeResponse t d = Inr \<lparr>Summary = branding, Comments = []\<rparr>"
proof -
  have s: "extractSection t ''SUMMARY:'' = Inr []"
    using assms(1) by (rule extractSection_absent)
  have p: "extractSection t ''POEM:'' = Inr []"
    using assms(2) by (rule extractSection_absent)
  have sp: "Split t ''PR_COMMENT:'' = [t]"
    using assms(3) by (simp add: Split_None Contains_def)
  show ?thesis
    unfolding parseClaudeResponse_def s p sp
    by (simp add: bindP_def)
qed

text \<open>
  Claim C10. The summary of every result \<open>parseClaudeResponse\<close> returns begins with the
  header \<open>## \<close>, the tornado sign (U+1F32A U+FE0F in UTF-8), \<open> Cyclone AI Code Review\<close>
  and two newlines, and so is never empty; a result is returned exactly when no block has
  overlapping delimiters; and a reply without the markers \<open>SUMMARY:\<close>, \<open>POEM:\<close> and
  \<open>PR_COMMENT:\<close> parses to exactly that header and to no comments.
\<close>

theorem parseClaudeResponse_branding:
  "(parseClaudeResponse t d = Inr r \<longrightarrow>
      prefix (''## '' @ [CHR 0xF0, CHR 0x9F, CHR 0x8C, CHR 0xAA, CHR 0xEF, CHR 0xB8, CHR 0x8F] @
         '' Cyclone AI Code Review\<newline>\<newline>'')
        (Summary r)
      \<and> Summary r \<noteq> [])
   \<and> ((\<exists>r'. parseClaudeResponse t d = Inr r') \<longleftrightarrow>
        (\<forall>f\<in>set (drop 1 (Split t ''PR_COMMENT:'')). \<not> delimitersOverlap f))
   \<and> (\<not> Contains t ''SUMMARY:'' \<and> \<not> Contains t ''POEM:'' \<and> \<not> Contains t ''PR_COMMENT:'' \<longrightarrow>
        parseClaudeResponse t d =
          Inr \<lparr>Summary =
                 (''## '' @ [CHR 0xF0, CHR 0x9F, CHR 0x8C, CHR 0xAA, CHR 0xEF, CHR 0xB8, CHR 0x8F] @
         '' Cyclone AI Code Review\<newline>\<newline>''),
               Comments = []\<rparr>)"
proof -
  have a: "prefix branding (Summary r) \<and> Summary r \<noteq> []" if "parseClaudeResponse t d = Inr r"
  proof -
    from parseClaudeResponse_eq [OF parseClaudeResponse_Inr_no_overlap [OF that], of d] that
    obtain summary where "Summary r = branding @ summary"
      by auto
    then show ?thesis
      by (simp add: branding_nonempty)
  qed
  have b: "(\<exists>r'. parseClaudeResponse t d = Inr r') \<longleftrightarrow>
        (\<forall>f\<in>set (drop 1 (Split t ''PR_COMMENT:'')). \<not> delimitersOverlap f)"
    using parseClaudeResponse_eq [of t d] parseClaudeResponse_Inr_no_overlap [of t d]
    by blast
  from a b parse_no_markers [of t d] show ?thesis
    unfolding branding_def by blast
qed

theorem parseClaudeResponse_branding_witness:
  "parseClaudeResponse ''Error generating AI review'' [] =
     Inr \<lparr>Summary =
            (''## '' @ [CHR 0xF0, CHR 0x9F, CHR 0x8C, CHR 0xAA, CHR 0xEF, CHR 0xB8, CHR 0x8F] @
         '' Cyclone AI Code Review\<newline>\<newline>''),
          Comments = []\<rparr>
   \<and> prefix (''## '' @ [CHR 0xF0, CHR 0x9F, CHR 0x8C, CHR 0xAA, CHR 0xEF, CHR 0xB8, CHR 0x8F] @
         '' Cyclone AI Code Review\<newline>\<newline>'')
        (Summary \<lparr>Summary = branding @ ''Hello'', Comments = []\<rparr>)
   \<and> (\<exists>r'. parseClaudeResponse ''SUMMARY: $$Hello$$'' [] = Inr r')"
proof -
  have "parseClaudeResponse ''SUMMARY: $$Hello$$'' [] = Inr \<lparr>Summary = branding @ ''Hello'', Comments = []\<rparr>"
    by (simp add: eval_defs)
  with parseClaudeResponse_branding [of "''SUMMARY: $$Hello$$''" "[]"
      "\<lparr>Summary = branding @ ''Hello'', Comments = []\<rparr>"]
    parseClaudeResponse_branding [of "''Error generating AI review''" "[]"]
  show ?thesis
    by (simp add: Contains_def)
qed

section \<open>The size gate\<close>

lemmas limit_defs =
  MAX_FILES_FOR_REVIEW_def MAX_ADDITIONS_FOR_REVIEW_def MAX_TOTAL_CHANGES_def
  WARN_FILES_THRESHOLD_def WARN_ADDITIONS_THRESHOLD_def

lemma skipMessages_distinct:
  "skipMessageFiles x l \<noteq> skipMessageAdditions y l'"
  "skipMessageFiles x l \<noteq> skipMessageTotal z y w l'"
  "skipMessageAdditions y l \<noteq> skipMessageTotal z y' w l'"
  by (simp_all add: skipMessageFiles_def skipMessageAdditions_def skipMessageTotal_def)

lemma skipMessages_nonempty:
  "skipMessageFiles x l \<noteq> []" "skipMessageAdditions y l \<noteq> []" "skipMessageTotal z y w l \<noteq> []"
  by (simp_all add: skipMessageFiles_def skipMessageAdditions_def skipMessageTotal_def)

lemma checkPRSize_files:
  assumes "25 < sint (GetChangedFiles pr)"
  shows "checkPRSize pr =
    \<lparr>ShouldReview = False, WarningMessage = [],
     SkipMessage = skipMessageFiles (GetChangedFiles pr) 25\<rparr>"
  using assms by (simp add: checkPRSize_def limit_defs Let_def)

lemma checkPRSize_additions:
  assumes "sint (GetChangedFiles pr) \<le> 25" and "800 < sint (GetAdditions pr)"
  shows "checkPRSize pr =
    \<lparr>ShouldReview = False, WarningMessage = [],
     SkipMessage = skipMessageAdditions (GetAdditions pr) 800\<rparr>"
  using assms by (simp add: checkPRSize_def limit_defs Let_def)

lemma checkPRSize_total:
  assumes "sint (GetChangedFiles pr) \<le> 25" and "sint (GetAdditions pr) \<le> 800"
    and "1200 < sint (GetAdditions pr + GetDeletions pr)"
  shows "checkPRSize pr =
    \<lparr>ShouldReview = False, WarningMessage = [],
     SkipMessage = skipMessageTotal (GetAdditions pr + GetDeletions pr) (GetAdditions pr)
       (GetDeletions pr) 1200\<rparr>"
  using assms by (simp add: checkPRSize_def limit_defs Let_def)

lemma checkPRSize_proceed:
  assumes "sint (GetChangedFiles pr) \<le> 25" and "sint (GetAdditions pr) \<le> 800"
    and "sint (GetAdditions pr + GetDeletions pr) \<le> 1200"
  shows "checkPRSize pr =
    \<lparr>ShouldReview = True,
     WarningMessage =
       (if 20 < sint (GetChangedFiles pr) \<and> 400 < sint (GetAdditions pr)
        then warningTwo (filesWarning (GetChangedFiles pr) 20) (additionsWarning (GetAdditions pr) 400)
        else if 20 < sint (GetChangedFiles pr)
        then warningOne (filesWarning (GetChangedFiles pr) 20 @ ''\<newline>'')
        else if 400 < sint (GetAdditions pr)
        then warningOne (additionsWarning (GetAdditions pr) 400 @ ''\<newline>'')
        else []),
     SkipMessage = []\<rparr>"
  using assms by (simp add: checkPRSize_def limit_defs Let_def)

lemma checkPRSize_verdict: "ShouldReview (checkPRSize pr) \<longleftrightarrow> SkipMessage (checkPRSize pr) = []"
proof -
  consider "25 < sint (GetChangedFiles pr)"
    | "sint (GetChangedFiles pr) \<le> 25" "800 < sint (GetAdditions pr)"
    | "sint (GetChangedFiles pr) \<le> 25" "sint (GetAdditions pr) \<le> 800"
      "1200 < sint (GetAdditions pr + GetDeletions pr)"
    | "sint (GetChangedFiles pr) \<le> 25" "sint (GetAdditions pr) \<le> 800"
      "sint (GetAdditions pr + GetDeletions pr) \<le> 1200"
    by linarith
  then show ?thesis
  proof cases
    case 1
    then show ?thesis by (simp add: checkPRSize_files skipMessages_nonempty)
  next
    case 2
    then show ?thesis by (simp add: checkPRSize_additions skipMessages_nonempty)
  next
    case 3
    then show ?thesis by (simp add: checkPRSize_total skipMessages_nonempty)
  next
    case 4
    then show ?thesis by (simp add: checkPRSize_proceed)
  qed
qed


text \<open>
  Claim C4. \<open>checkPRSize\<close> gives every pull request one verdict: it skips (with a
  non-empty skip message) or it proceeds (with none). The hard limits are tried in the
  order files over 25, additions over 800, additions plus deletions over 1200 (the sum as
  Go computes it), and the first one crossed fixes the skip message whatever the later
  ones would say; the three messages differ for all counts. In particular 26 files with
  10 additions is skipped with the files message.
\<close>

theorem checkPRSize_hard_limits:
  assumes "files = GetChangedFiles pr" and "additions = GetAdditions pr"
    and "deletions = GetDeletions pr"
  shows "(25 < sint files \<longrightarrow>
       checkPRSize pr = \<lparr>ShouldReview = False, WarningMessage = [],
                         SkipMessage = skipMessageFiles files 25\<rparr>)
   \<and> (sint files \<le> 25 \<and> 800 < sint additions \<longrightarrow>
       checkPRSize pr = \<lparr>ShouldReview = False, WarningMessage = [],
                         SkipMessage = skipMessageAdditions additions 800\<rparr>)
   \<and> (sint files \<le> 25 \<and> sint additions \<le> 800 \<and> 1200 < sint (additions + deletions) \<longrightarrow>
       checkPRSize pr = \<lparr>ShouldReview = False, WarningMessage = [],
                         SkipMessage = skipMessageTotal (additions + deletions) additions
                                         deletions 1200\<rparr>)
   \<and> (sint files \<le> 25 \<and> sint additions \<le> 800 \<and> sint (additions + deletions) \<le> 1200 \<longrightarrow>
       ShouldReview (checkPRSize pr) \<and> SkipMessage (checkPRSize pr) = [])
   \<and> (ShouldReview (checkPRSize pr) \<longleftrightarrow> SkipMessage (checkPRSize pr) = [])
   \<and> skipMessageFiles x 25 \<noteq> skipMessageAdditions y 800
   \<and> skipMessageFiles x 25 \<noteq> skipMessageTotal z y w 1200
   \<and> skipMessageAdditions y 800 \<noteq> skipMessageTotal z y w 1200
   \<and> (files = 26 \<and> additions = 10 \<longrightarrow>
       checkPRSize pr = \<lparr>ShouldReview = False, WarningMessage = [],
                         SkipMessage = skipMessageFiles 26 25\<rparr>)"
proof -
  have "checkPRSize pr = \<lparr>ShouldReview = False, WarningMessage = [],
                         SkipMessage = skipMessageFiles 26 25\<rparr>"
    if "files = 26" "additions = 10"
    using that assms checkPRSize_files [of pr] by simp
  moreover have "ShouldReview (checkPRSize pr) \<and> SkipMessage (checkPRSize pr) = []"
    if "sint files \<le> 25" "sint additions \<le> 800" "sint (additions + deletions) \<le> 1200"
    using that assms checkPRSize_proceed [of pr] by simp
  ultimately show ?thesis
    unfolding assms
    using checkPRSize_files [of pr] checkPRSize_additions [of pr] checkPRSize_total [of pr]
      checkPRSize_verdict [of pr] skipMessages_distinct
    by blast
qed

lemma examplePR_getters:
  "GetChangedFiles (examplePR f a d) = f" "GetAdditions (examplePR f a d) = a"
  "GetDeletions (examplePR f a d) = d"
  by (simp_all add: examplePR_def GetChangedFiles_def GetAdditions_def GetDeletions_def getter_def)

theorem checkPRSize_hard_limits_witness:
  "checkPRSize (examplePR 26 10 0) =
     \<lparr>ShouldReview = False, WarningMessage = [], SkipMessage = skipMessageFiles 26 25\<rparr>
   \<and> checkPRSize (examplePR 30 900 500) =
     \<lparr>ShouldReview = False, WarningMessage = [], SkipMessage = skipMessageFiles 30 25\<rparr>
   \<and> checkPRSize (examplePR 5 900 500) =
     \<lparr>ShouldReview = False, WarningMessage = [], SkipMessage = skipMessageAdditions 900 800\<rparr>
   \<and> checkPRSize (examplePR 5 700 600) =
     \<lparr>ShouldReview = False, WarningMessage = [],
      SkipMessage = skipMessageTotal 1300 700 600 1200\<rparr>
   \<and> ShouldReview (checkPRSize (examplePR 5 100 50))"
  using checkPRSize_hard_limits [of 26 "examplePR 26 10 0" 10 0]
    checkPRSize_hard_limits [of 30 "examplePR 30 900 500" 900 500]
    checkPRSize_hard_limits [of 5 "examplePR 5 900 500" 900 500]
    checkPRSize_hard_limits [of 5 "examplePR 5 700 600" 700 600]
    checkPRSize_hard_limits [of 5 "examplePR 5 100 50" 100 50]
  by (simp add: examplePR_getters)

lemma warning_blocks:
  "warningTwo w0 w1 = warningPrefix @ w0 @ ''\<newline>'' @ w1 @ warningSuffix"
  "warningOne (w @ ''\<newline>'') = warningPrefix @ w @ ''\<newline>'' @ warningSuffix"
  by (simp_all add: warningTwo_def warningOne_def warningPrefix_def warningSuffix_def)

text \<open>
  Claim C6. When no hard limit is crossed the review proceeds, and the two warning
  thresholds are tried independently: more than 20 files adds the files line, more than
  400 additions adds the additions line, the files line first, between the fixed prefix
  and suffix of the warning block; with no line the warning is empty. In particular 10
  files with 450 additions proceeds with a non-empty warning that mentions the 450 added
  lines.
\<close>

theorem checkPRSize_warnings:
  assumes "files = GetChangedFiles pr" and "additions = GetAdditions pr"
    and "deletions = GetDeletions pr"
    and "sint files \<le> 25" and "sint additions \<le> 800" and "sint (additions + deletions) \<le> 1200"
  shows "ShouldReview (checkPRSize pr) \<and> SkipMessage (checkPRSize pr) = []
   \<and> (20 < sint files \<and> 400 < sint additions \<longrightarrow>
        WarningMessage (checkPRSize pr) =
          warningPrefix @ filesWarning files 20 @ ''\<newline>'' @ additionsWarning additions 400
            @ warningSuffix)
   \<and> (20 < sint files \<and> sint additions \<le> 400 \<longrightarrow>
        WarningMessage (checkPRSize pr) =
          warningPrefix @ filesWarning files 20 @ ''\<newline>'' @ warningSuffix)
   \<and> (sint files \<le> 20 \<and> 400 < sint additions \<longrightarrow>
        WarningMessage (checkPRSize pr) =
          warningPrefix @ additionsWarning additions 400 @ ''\<newline>'' @ warningSuffix)
   \<and> (sint files \<le> 20 \<and> sint additions \<le> 400 \<longrightarrow> WarningMessage (checkPRSize pr) = [])
   \<and> (files = 10 \<and> additions = 450 \<longrightarrow>
        WarningMessage (checkPRSize pr) \<noteq> []
        \<and> Contains (WarningMessage (checkPRSize pr)) ''450 lines added'')"
proof -
  note eq = checkPRSize_proceed [of pr, unfolded warning_blocks, folded assms(1-3), OF assms(4-6)]
  have ex: "WarningMessage (checkPRSize pr) \<noteq> []
        \<and> Contains (WarningMessage (checkPRSize pr)) ''450 lines added''"
    if "files = 10" "additions = 450"
    unfolding eq using that
    by (simp add: warningPrefix_def warningSuffix_def additionsWarning_def Itoa_def
        digits.simps digitChar_def Contains_def)
  show ?thesis
    unfolding eq using ex [unfolded eq]
    by (simp add: not_less)
qed

theorem checkPRSize_warnings_witness:
  "WarningMessage (checkPRSize (examplePR 10 450 0)) =
     warningPrefix @ additionsWarning 450 400 @ ''\<newline>'' @ warningSuffix
   \<and> WarningMessage (checkPRSize (examplePR 21 401 3)) =
     warningPrefix @ filesWarning 21 20 @ ''\<newline>'' @ additionsWarning 401 400 @ warningSuffix
   \<and> WarningMessage (checkPRSize (examplePR 21 40 3)) =
     warningPrefix @ filesWarning 21 20 @ ''\<newline>'' @ warningSuffix
   \<and> WarningMessage (checkPRSize (examplePR 2 40 3)) = []
   \<and> ShouldReview (checkPRSize (examplePR 10 450 0))
   \<and> Contains (WarningMessage (checkPRSize (examplePR 10 450 0))) ''450 lines added''"
proof -
  have "ShouldReview (checkPRSize (examplePR 10 450 0))
      \<and> WarningMessage (checkPRSize (examplePR 10 450 0)) =
          warningPrefix @ additionsWarning 450 400 @ ''\<newline>'' @ warningSuffix
      \<and> Contains (WarningMessage (checkPRSize (examplePR 10 450 0))) ''450 lines added''"
    using checkPRSize_warnings [of 10 "examplePR 10 450 0" 450 0]
    by (auto simp: examplePR_getters)
  moreover have "WarningMessage (checkPRSize (examplePR 21 401 3)) =
     warningPrefix @ filesWarning 21 20 @ ''\<newline>'' @ additionsWarning 401 400 @ warningSuffix"
    using checkPRSize_warnings [of 21 "examplePR 21 401 3" 401 3]
    by (simp add: examplePR_getters)
  moreover have "WarningMessage (checkPRSize (examplePR 21 40 3)) =
     warningPrefix @ filesWarning 21 20 @ ''\<newline>'' @ warningSuffix"
    using checkPRSize_warnings [of 21 "examplePR 21 40 3" 40 3]
    by (simp add: examplePR_getters)
  moreover have "WarningMessage (checkPRSize (examplePR 2 40 3)) = []"
    using checkPRSize_warnings [of 2 "examplePR 2 40 3" 40 3]
    by (simp add: examplePR_getters)
  ultimately show ?thesis
    by blast
qed

section \<open>Prompt assembly\<close>

lemma ReplaceAll_Nil: "old \<noteq> [] \<Longrightarrow> ReplaceAll [] old new = []"
  by (simp add: ReplaceAll.simps)

lemma ReplaceAll_Cons:
  assumes "old \<noteq> []"
  shows "ReplaceAll (c # cs) old new =
     (if prefix old (c # cs) then new @ ReplaceAll (drop (length old) (c # cs)) old new
      else c # ReplaceAll cs old new)"
proof (cases "prefix old (c # cs)")
  case True
  then have "Index (c # cs) old = Some 0"
    by simp
  with assms True show ?thesis
    by (subst ReplaceAll.simps) simp
next
  case False
  show ?thesis
  proof (cases "Index cs old")
    case None
    with assms False show ?thesis
      by (simp add: ReplaceAll.simps [of "c # cs"] ReplaceAll.simps [of cs])
  next
    case (Some i)
    with assms False show ?thesis
      by (simp add: ReplaceAll.simps [of "c # cs"] ReplaceAll.simps [of cs])
  qed
qed

lemma ReplaceAll_at:
  assumes "old \<noteq> []"
  shows "ReplaceAll (old @ r) old new = new @ ReplaceAll r old new"
proof -
  from assms obtain c cs where old: "old = c # cs"
    by (cases old) auto
  have "ReplaceAll (c # cs @ r) old new =
      new @ ReplaceAll (drop (length old) (c # cs @ r)) old new"
    using assms by (subst ReplaceAll_Cons) (simp_all add: old)
  then show ?thesis
    by (simp add: old)
qed

lemma ReplaceAll_absent: "old \<noteq> [] \<Longrightarrow> \<not> Contains s old \<Longrightarrow> ReplaceAll s old new = s"
  by (simp add: ReplaceAll.simps Contains_def)

lemma token_facts: "token k \<noteq> []" "hd (token k) = CHR ''{''"
  by (cases k; simp)+

lemma token_shape:
  "\<exists>b. token k = CHR ''{'' # CHR ''{'' # b \<and> b \<noteq> [] \<and> CHR ''{'' \<notin> set b"
  by (cases k) simp_all

lemma ReplaceAll_other_token:
  assumes "k' \<noteq> k"
  shows "ReplaceAll (token k' @ r) (token k) v = token k' @ ReplaceAll r (token k) v"
  using assms by (cases k; cases k'; simp add: ReplaceAll_Cons)

lemma not_Contains_Cons:
  "\<not> Contains (c # u) t \<Longrightarrow> \<not> prefix t (c # u) \<and> \<not> Contains u t"
  by (auto simp: Contains_def split: if_splits)

lemma Contains_appendI1: "Contains a t \<Longrightarrow> Contains (a @ b) t"
  by (auto simp: Contains_iff) (metis append.assoc)

lemma Contains_appendI2: "Contains b t \<Longrightarrow> Contains (a @ b) t"
  by (auto simp: Contains_iff) (metis append.assoc)

lemma token_no_overlap:
  assumes "\<not> prefix (token k) (c # u)"
  shows "\<not> prefix (token k) (c # u @ token k' @ r)"
proof
  assume "prefix (token k) (c # u @ token k' @ r)"
  then have "prefix (token k) ((c # u) @ token k' @ r)"
    by simp
  with assms obtain us where us: "token k = (c # u) @ us" "prefix us (token k' @ r)"
    unfolding prefix_append by blast
  obtain b where b: "token k = CHR ''{'' # CHR ''{'' # b" "b \<noteq> []" "CHR ''{'' \<notin> set b"
    using token_shape by blast
  obtain b' where b': "token k' = CHR ''{'' # CHR ''{'' # b'"
    using token_shape by blast
  from us(1) assms have "us \<noteq> []"
    by auto
  then obtain x us' where x: "us = x # us'"
    by (cases us) auto
  with us(2) b' have x': "x = CHR ''{''" "prefix us' (CHR ''{'' # b' @ r)"
    by simp_all
  from us(1) x x'(1) have "token k = c # (u @ CHR ''{'' # us')"
    by simp
  with b(1) have eq: "u @ CHR ''{'' # us' = CHR ''{'' # b"
    by simp
  show False
  proof (cases u)
    case Nil
    with eq have "us' = b"
      by simp
    with x'(2) b(2,3) show False
      by (cases b) auto
  next
    case (Cons d u')
    with eq have "b = u' @ CHR ''{'' # us'"
      by simp
    with b(3) show False
      by simp
  qed
qed

lemma ReplaceAll_scan:
  assumes "\<not> Contains u (token k)"
  shows "ReplaceAll (u @ token k' @ r) (token k) v = u @ ReplaceAll (token k' @ r) (token k) v"
  using assms
proof (induction u)
  case Nil
  show ?case by simp
next
  case (Cons c u)
  from not_Contains_Cons [OF Cons.prems]
  have np: "\<not> prefix (token k) (c # u)" and nc: "\<not> Contains u (token k)"
    by simp_all
  from token_no_overlap [OF np] have "\<not> prefix (token k) (c # u @ token k' @ r)" .
  with Cons.IH [OF nc] show ?case
    by (simp add: ReplaceAll_Cons token_facts)
qed

lemma ReplaceAll_render:
  assumes "\<not> Contains (u @ fill data ps) (token k)"
  shows "ReplaceAll (u @ render ps) (token k) v = u @ render (substOne k v ps)"
  using assms
proof (induction ps arbitrary: u rule: render.induct)
  case 1
  then show ?case
    by (simp add: ReplaceAll_absent token_facts)
next
  case (2 s ps)
  from "2.prems" have "\<not> Contains ((u @ s) @ fill data ps) (token k)"
    by simp
  from "2.IH" [OF this] show ?case
    by simp
next
  case (3 k' ps)
  from "3.prems" have u: "\<not> Contains u (token k)"
    using Contains_appendI1 by blast
  have "Contains (u @ slotValue data k' @ fill data ps) (token k)"
    if "Contains (fill data ps) (token k)"
    using Contains_appendI2 [OF that, of "u @ slotValue data k'"] by simp
  with "3.prems" have "\<not> Contains ([] @ fill data ps) (token k)"
    by auto
  from "3.IH" [OF this] have rest: "ReplaceAll (render ps) (token k) v = render (substOne k v ps)"
    by simp
  have "ReplaceAll (u @ token k' @ render ps) (token k) v =
      u @ ReplaceAll (token k' @ render ps) (token k) v"
    using u by (rule ReplaceAll_scan)
  also have "ReplaceAll (token k' @ render ps) (token k) v =
      render (substOne k v (Hole k' # ps))"
    by (cases "k' = k") (simp_all add: ReplaceAll_at token_facts ReplaceAll_other_token rest)
  finally show ?case
    by simp
qed

lemma fill_substOne: "fill data (substOne k (slotValue data k) ps) = fill data ps"
  by (induction ps rule: render.induct) auto

lemma render_all_substituted:
  "render (substOne CustomPromptSlot (slotValue data CustomPromptSlot)
     (substOne DiffSlot (slotValue data DiffSlot)
       (substOne PrecisionSlot (slotValue data PrecisionSlot)
         (substOne BodySlot (slotValue data BodySlot)
           (substOne TitleSlot (slotValue data TitleSlot) ps))))) = fill data ps"
proof (induction ps rule: render.induct)
  case 1
  show ?case by simp
next
  case (2 s ps)
  then show ?case by simp
next
  case (3 k ps)
  then show ?case by (cases k) simp_all
qed

lemma substitute_render:
  assumes "\<And>k. \<not> Contains (fill data ps) (token k)"
  shows "substitutePromptVariables (render ps) data = fill data ps"
proof -
  let ?p1 = "substOne TitleSlot (slotValue data TitleSlot) ps"
  let ?p2 = "substOne BodySlot (slotValue data BodySlot) ?p1"
  let ?p3 = "substOne PrecisionSlot (slotValue data PrecisionSlot) ?p2"
  let ?p4 = "substOne DiffSlot (slotValue data DiffSlot) ?p3"
  let ?p5 = "substOne CustomPromptSlot (slotValue data CustomPromptSlot) ?p4"
  have step: "ReplaceAll (render qs) (token k) (slotValue data k) =
      render (substOne k (slotValue data k) qs)" if "fill data qs = fill data ps" for qs k
    using ReplaceAll_render [of "[]" data qs k "slotValue data k"] assms [of k] that
    by simp
  have f1: "fill data ?p1 = fill data ps" by (simp only: fill_substOne)
  have f2: "fill data ?p2 = fill data ps" by (simp only: fill_substOne)
  have f3: "fill data ?p3 = fill data ps" by (simp only: fill_substOne)
  have f4: "fill data ?p4 = fill data ps" by (simp only: fill_substOne)
  have "substitutePromptVariables (render ps) data =
      ReplaceAll (ReplaceAll (ReplaceAll (ReplaceAll (ReplaceAll (render ps)
        (token TitleSlot) (slotValue data TitleSlot))
        (token BodySlot) (slotValue data BodySlot))
        (token PrecisionSlot) (slotValue data PrecisionSlot))
        (token DiffSlot) (slotValue data DiffSlot))
        (token CustomPromptSlot) (slotValue data CustomPromptSlot)"
    by (simp add: substitutePromptVariables_def Let_def)
  also have "\<dots> = render ?p5"
    by (simp only: step [OF refl] step [OF f1] step [OF f2] step [OF f3] step [OF f4])
  also have "\<dots> = fill data ps"
    by (rule render_all_substituted)
  finally show ?thesis .
qed

lemma loneBraces_append: "loneBraces a \<Longrightarrow> loneBraces b \<Longrightarrow> loneBraces (a @ b)"
proof (induction a rule: loneBraces.induct)
  case 1
  then show ?case by simp
next
  case (2 c)
  then show ?case by (cases b) simp_all
next
  case (3 c d cs)
  then show ?case by simp
qed

lemma loneBraces_double: "\<not> loneBraces (p @ CHR ''{'' # CHR ''{'' # r)"
  by (induction p rule: loneBraces.induct) simp_all

lemma loneBraces_no_token: "loneBraces s \<Longrightarrow> \<not> Contains s (token k)"
proof
  assume l: "loneBraces s" and "Contains s (token k)"
  then obtain p r where "s = p @ token k @ r"
    by (auto simp: Contains_iff)
  moreover obtain b where "token k = CHR ''{'' # CHR ''{'' # b"
    using token_shape by blast
  ultimately have "s = p @ CHR ''{'' # CHR ''{'' # (b @ r)"
    by simp
  with l loneBraces_double show False
    by simp
qed

lemma loneBraces_fill:
  assumes "plainText ps" and "\<And>k. loneBraces (slotValue data k)"
  shows "loneBraces (fill data ps)"
  using assms(1)
proof (induction ps rule: render.induct)
  case 1
  show ?case by simp
next
  case (2 s ps)
  then show ?case by (simp add: loneBraces_append)
next
  case (3 k ps)
  with assms(2) [of k] show ?case by (simp add: loneBraces_append)
qed


text \<open>
  Claim C9, as stated, fails: the values are not scanned again, so a placeholder token
  that comes in with a value substituted later than its own placeholder stays in the
  result. Here the body brings \<open>{{.Title}}\<close> after the title has been substituted.
\<close>

theorem substitutePromptVariables_leftover_token:
  "substitutePromptVariables ''{{.Title}}|{{.Body}}|{{.Precision}}|{{.Diff}}|{{.CustomPrompt}}''
     \<lparr>PromptData.Title = ''T'', Body = ''see {{.Title}}'', Precision = ''P'', Diff = ''D'',
      CustomPrompt = ''C''\<rparr> = ''T|see {{.Title}}|P|D|C''
   \<and> Contains ''T|see {{.Title}}|P|D|C'' ''{{.Title}}''"
  by (simp add: substitutePromptVariables_def ReplaceAll.simps Contains_def)

text \<open>
  Claim C9, amended. Take a template made of literal text and placeholders, and a title,
  body, precision, diff and custom prompt. If the text obtained by putting each value in
  the place of its placeholder holds none of the five placeholder tokens, then the
  substitution yields exactly that text, and so a result with none of the five tokens.
  This is so in particular when, in every literal piece and in every value, each opening
  brace is followed by a character that is no opening brace.
\<close>

theorem substitutePromptVariables_fills:
  "(\<not> Contains (fill data ps) ''{{.Title}}'' \<and> \<not> Contains (fill data ps) ''{{.Body}}''
      \<and> \<not> Contains (fill data ps) ''{{.Precision}}'' \<and> \<not> Contains (fill data ps) ''{{.Diff}}''
      \<and> \<not> Contains (fill data ps) ''{{.CustomPrompt}}'' \<longrightarrow>
      substitutePromptVariables (render ps) data = fill data ps
      \<and> \<not> Contains (substitutePromptVariables (render ps) data) ''{{.Title}}''
      \<and> \<not> Contains (substitutePromptVariables (render ps) data) ''{{.Body}}''
      \<and> \<not> Contains (substitutePromptVariables (render ps) data) ''{{.Precision}}''
      \<and> \<not> Contains (substitutePromptVariables (render ps) data) ''{{.Diff}}''
      \<and> \<not> Contains (substitutePromptVariables (render ps) data) ''{{.CustomPrompt}}'')
   \<and> (plainText ps \<and> loneBraces (PromptData.Title data) \<and> loneBraces (PromptData.Body data)
      \<and> loneBraces (PromptData.Precision data) \<and> loneBraces (Diff data)
      \<and> loneBraces (PromptData.CustomPrompt data) \<longrightarrow>
      substitutePromptVariables (render ps) data = fill data ps
      \<and> \<not> Contains (substitutePromptVariables (render ps) data) ''{{.Title}}''
      \<and> \<not> Contains (substitutePromptVariables (render ps) data) ''{{.Body}}''
      \<and> \<not> Contains (substitutePromptVariables (render ps) data) ''{{.Precision}}''
      \<and> \<not> Contains (substitutePromptVariables (render ps) data) ''{{.Diff}}''
      \<and> \<not> Contains (substitutePromptVariables (render ps) data) ''{{.CustomPrompt}}'')"
proof -
  have general: "substitutePromptVariables (render ps) data = fill data ps
      \<and> (\<forall>k. \<not> Contains (substitutePromptVariables (render ps) data) (token k))"
    if free: "\<And>k. \<not> Contains (fill data ps) (token k)"
  proof -
    have "substitutePromptVariables (render ps) data = fill data ps"
      using free by (rule substitute_render)
    with free show ?thesis
      by simp
  qed
  have first: "\<And>k. \<not> Contains (fill data ps) (token k)"
    if "\<not> Contains (fill data ps) ''{{.Title}}''" "\<not> Contains (fill data ps) ''{{.Body}}''"
      "\<not> Contains (fill data ps) ''{{.Precision}}''" "\<not> Contains (fill data ps) ''{{.Diff}}''"
      "\<not> Contains (fill data ps) ''{{.CustomPrompt}}''"
  proof -
    fix k
    from that show "\<not> Contains (fill data ps) (token k)"
      by (cases k) simp_all
  qed
  have second: "\<And>k. \<not> Contains (fill data ps) (token k)"
    if "plainText ps" "loneBraces (PromptData.Title data)" "loneBraces (PromptData.Body data)"
      "loneBraces (PromptData.Precision data)" "loneBraces (Diff data)"
      "loneBraces (PromptData.CustomPrompt data)"
  proof -
    fix k
    have "loneBraces (slotValue data k')" for k'
      using that(2-6) by (cases k') simp_all
    with that(1) have "loneBraces (fill data ps)"
      by (rule loneBraces_fill)
    then show "\<not> Contains (fill data ps) (token k)"
      by (rule loneBraces_no_token)
  qed
  have spelled: "substitutePromptVariables (render ps) data = fill data ps
      \<and> \<not> Contains (substitutePromptVariables (render ps) data) ''{{.Title}}''
      \<and> \<not> Contains (substitutePromptVariables (render ps) data) ''{{.Body}}''
      \<and> \<not> Contains (substitutePromptVariables (render ps) data) ''{{.Precision}}''
      \<and> \<not> Contains (substitutePromptVariables (render ps) data) ''{{.Diff}}''
      \<and> \<not> Contains (substitutePromptVariables (render ps) data) ''{{.CustomPrompt}}''"
    if "substitutePromptVariables (render ps) data = fill data ps
      \<and> (\<forall>k. \<not> Contains (substitutePromptVariables (render ps) data) (token k))"
  proof -
    from that have k: "\<not> Contains (substitutePromptVariables (render ps) data) (token k)" for k
      by blast
    from k [of TitleSlot] k [of BodySlot] k [of PrecisionSlot] k [of DiffSlot]
      k [of CustomPromptSlot] that
    show ?thesis
      by simp
  qed
  from spelled [OF general [OF first]] spelled [OF general [OF second]] show ?thesis
    by blast
qed

theorem substitutePromptVariables_fills_witness:
  "substitutePromptVariables ''# {{.Title}}: {{.Body}} [{{.Precision}}] {{.Diff}}{{.CustomPrompt}}''
     \<lparr>PromptData.Title = ''Fix'', Body = ''a bug'', Precision = ''strict'',
      Diff = ''+func main() { }'', CustomPrompt = []\<rparr> = ''# Fix: a bug [strict] +func main() { }''
   \<and> \<not> Contains ''# Fix: a bug [strict] +func main() { }'' ''{{.Title}}''
   \<and> substitutePromptVariables ''{{.Title}}: {{.Diff}}''
     \<lparr>PromptData.Title = ''Fix'', Body = [], Precision = [], Diff = ''+xs := [][]int{{1}}'',
      CustomPrompt = []\<rparr> = ''Fix: +xs := [][]int{{1}}''"
proof -
  have a: "substitutePromptVariables
      ''# {{.Title}}: {{.Body}} [{{.Precision}}] {{.Diff}}{{.CustomPrompt}}''
     \<lparr>PromptData.Title = ''Fix'', Body = ''a bug'', Precision = ''strict'',
      Diff = ''+func main() { }'', CustomPrompt = []\<rparr> = ''# Fix: a bug [strict] +func main() { }''"
    using substitutePromptVariables_fills [of
      "\<lparr>PromptData.Title = ''Fix'', Body = ''a bug'', Precision = ''strict'',
        Diff = ''+func main() { }'', CustomPrompt = []\<rparr>"
      "[Text ''# '', Hole TitleSlot, Text '': '', Hole BodySlot, Text '' ['', Hole PrecisionSlot,
        Text ''] '', Hole DiffSlot, Hole CustomPromptSlot]"]
    by simp
  have b: "substitutePromptVariables ''{{.Title}}: {{.Diff}}''
     \<lparr>PromptData.Title = ''Fix'', Body = [], Precision = [], Diff = ''+xs := [][]int{{1}}'',
      CustomPrompt = []\<rparr> = ''Fix: +xs := [][]int{{1}}''"
    using substitutePromptVariables_fills [of
      "\<lparr>PromptData.Title = ''Fix'', Body = [], Precision = [], Diff = ''+xs := [][]int{{1}}'',
        CustomPrompt = []\<rparr>"
      "[Hole TitleSlot, Text '': '', Hole DiffSlot]"]
    by (simp add: Contains_def)
  have "\<not> Contains ''# Fix: a bug [strict] +func main() { }'' ''{{.Title}}''"
    by (simp add: Contains_def)
  with a b show ?thesis
    by simp
qed

section \<open>Repository configuration and the orchestrator\<close>

lemma find_None_iff_ex: "find P xs = None \<longleftrightarrow> \<not> list_ex P xs"
  by (induction xs) auto

lemma GetRepositoryConfigLoop_find:
  "GetRepositoryConfigLoop orgs owner repoName =
     (case find (usableOrg owner repoName) orgs of
        None \<Rightarrow> None
      | Some org \<Rightarrow>
          (case find (\<lambda>repo. RepositoryConfig.Name repo = repoName) (Repositories org) of
             Some repo \<Rightarrow> Some repo
           | None \<Rightarrow>
               find (\<lambda>repo. RepositoryConfig.Name repo = ''*''
                             \<or> RepositoryConfig.Name repo = ''default'') (Repositories org)))"
proof (induction orgs)
  case Nil
  show ?case by simp
next
  case (Cons org orgs)
  show ?case
  proof (cases "usableOrg owner repoName org")
    case True
    then have owner: "OrganizationConfig.Name org = owner"
      by (simp add: usableOrg_def)
    show ?thesis
    proof (cases "find (\<lambda>repo. RepositoryConfig.Name repo = repoName) (Repositories org)")
      case (Some repo)
      with True owner show ?thesis
        by simp
    next
      case None
      then have "\<not> list_ex (\<lambda>repo. RepositoryConfig.Name repo = repoName) (Repositories org)"
        by (simp add: find_None_iff_ex)
      with True have "list_ex (\<lambda>repo. RepositoryConfig.Name repo = ''*''
          \<or> RepositoryConfig.Name repo = ''default'') (Repositories org)"
        by (auto simp: usableOrg_def list_ex_iff)
      then obtain w where "find (\<lambda>repo. RepositoryConfig.Name repo = ''*''
          \<or> RepositoryConfig.Name repo = ''default'') (Repositories org) = Some w"
        using find_None_iff_ex by fastforce
      with True owner None show ?thesis
        by simp
    qed
  next
    case False
    then have "OrganizationConfig.Name org = owner \<Longrightarrow>
        find (\<lambda>repo. RepositoryConfig.Name repo = repoName) (Repositories org) = None
        \<and> find (\<lambda>repo. RepositoryConfig.Name repo = ''*''
                      \<or> RepositoryConfig.Name repo = ''default'') (Repositories org) = None"
      by (auto simp: usableOrg_def find_None_iff_ex list_ex_iff)
    with False Cons show ?thesis
      by auto
  qed
qed

text \<open>
  Claim C7, as stated, fails for a configuration that lists an organization twice: the
  first entry of \<open>acme\<close> has only a wildcard, the second one has the exact match, and the
  wildcard of the first is returned.
\<close>

theorem GetRepositoryConfig_duplicate_organization:
  "GetRepositoryConfig duplicateOrgs ''acme'' ''svc'' =
     Some \<lparr>RepositoryConfig.Name = ''*'', Precision = ''minor'', CustomPrompt = []\<rparr>
   \<and> OrganizationConfig.Name (Organizations duplicateOrgs ! 1) = ''acme''
   \<and> \<lparr>RepositoryConfig.Name = ''svc'', Precision = ''strict'', CustomPrompt = []\<rparr>
       \<in> set (Repositories (Organizations duplicateOrgs ! 1))"
  by (simp add: GetRepositoryConfig_def duplicateOrgs_def)

lemma find_unique:
  assumes "distinct (map f xs)" and "x \<in> set xs" and "P x" and "\<And>y. P y \<Longrightarrow> f y = f x"
  shows "find P xs = Some x"
  using assms(1,2)
proof (induction xs)
  case Nil
  then show ?case by simp
next
  case (Cons a xs)
  show ?case
  proof (cases "a = x")
    case True
    with assms(3) show ?thesis by simp
  next
    case False
    with Cons.prems have x: "x \<in> set xs" and "f a \<notin> f ` set xs"
      by auto
    then have "f a \<noteq> f x"
      by auto
    with assms(4) have "\<not> P a"
      by auto
    with Cons.IH Cons.prems x show ?thesis
      by simp
  qed
qed

lemma find_Some_member: "find P xs = Some x \<Longrightarrow> x \<in> set xs \<and> P x"
  by (induction xs) (auto split: if_splits)

lemma ProcessPullRequest_default:
  assumes "GetRepositoryConfig rc (GetLogin (GetOwner repo)) (GetName repo) = None"
  shows "ProcessPullRequest rc svc repo pr =
     (if \<not> ShouldReview (checkPRSize pr) then
        Inr [PostComment (GetLogin (GetOwner repo)) (GetName repo) (GetNumber pr)
               (SkipMessage (checkPRSize pr))]
      else
        (case prDiff svc (GetLogin (GetOwner repo)) (GetName repo) (GetNumber pr) of
           None \<Rightarrow> Inr [GetPRDiff (GetLogin (GetOwner repo)) (GetName repo) (GetNumber pr)]
         | Some diff \<Rightarrow>
             bindP (GenerateReview svc diff (GetTitle pr) (GetBody pr)
                      (defaultConfig (GetName repo)))
               (\<lambda>reviewResult.
                  Inr [GetPRDiff (GetLogin (GetOwner repo)) (GetName repo) (GetNumber pr),
                       PostReview (GetLogin (GetOwner repo)) (GetName repo) (GetNumber pr)
                         (if WarningMessage (checkPRSize pr) \<noteq> []
                          then reviewResult\<lparr>Summary :=
                                 WarningMessage (checkPRSize pr) @ Summary reviewResult\<rparr>
                          else reviewResult)])))"
  using assms
  by (simp add: ProcessPullRequest_def Let_def defaultConfig_def PrecisionMedium_def
      split: option.splits)

text \<open>
  Claim C7, amended. \<open>GetRepositoryConfig\<close> answers from the first organization named
  \<open>owner\<close> that holds an entry named \<open>repoName\<close>, \<open>*\<close> or \<open>default\<close>: it returns that
  organization's first entry named \<open>repoName\<close> when there is one, even when a wildcard
  entry is there too, and its first wildcard entry only when it has no exact match; it
  returns nil exactly when no organization named \<open>owner\<close> holds such an entry. When
  organization names are distinct this is the exact match of the one matching
  organization. On nil the orchestrator goes on with the configuration of medium
  precision and empty custom prompt: it still makes an outbound call, and when the size
  gate lets the pull request through and the diff is there, it posts the review
  generated with that configuration.
\<close>

theorem GetRepositoryConfig_resolution:
  "GetRepositoryConfig rc owner repoName =
     (case find (usableOrg owner repoName) (Organizations rc) of
        None \<Rightarrow> None
      | Some org \<Rightarrow>
          (case find (\<lambda>repo. RepositoryConfig.Name repo = repoName) (Repositories org) of
             Some repo \<Rightarrow> Some repo
           | None \<Rightarrow>
               find (\<lambda>repo. RepositoryConfig.Name repo = ''*''
                             \<or> RepositoryConfig.Name repo = ''default'') (Repositories org)))
   \<and> (find (usableOrg owner repoName) (Organizations rc) = Some org
        \<and> exact \<in> set (Repositories org) \<and> RepositoryConfig.Name exact = repoName \<longrightarrow>
       (\<exists>r. GetRepositoryConfig rc owner repoName = Some r \<and> r \<in> set (Repositories org)
            \<and> RepositoryConfig.Name r = repoName))
   \<and> (find (usableOrg owner repoName) (Organizations rc) = Some org
        \<and> (\<forall>r\<in>set (Repositories org). RepositoryConfig.Name r \<noteq> repoName) \<longrightarrow>
       (\<exists>w. GetRepositoryConfig rc owner repoName = Some w \<and> w \<in> set (Repositories org)
            \<and> (RepositoryConfig.Name w = ''*'' \<or> RepositoryConfig.Name w = ''default'')))
   \<and> (GetRepositoryConfig rc owner repoName = None \<longleftrightarrow>
        \<not> list_ex (usableOrg owner repoName) (Organizations rc))
   \<and> (distinct (map OrganizationConfig.Name (Organizations rc))
        \<and> org \<in> set (Organizations rc) \<and> OrganizationConfig.Name org = owner
        \<and> exact \<in> set (Repositories org) \<and> RepositoryConfig.Name exact = repoName \<longrightarrow>
       (\<exists>r. GetRepositoryConfig rc owner repoName = Some r \<and> r \<in> set (Repositories org)
            \<and> RepositoryConfig.Name r = repoName))
   \<and> (GetRepositoryConfig rc (GetLogin (GetOwner repo)) (GetName repo) = None
        \<and> ShouldReview (checkPRSize pr)
        \<and> prDiff svc (GetLogin (GetOwner repo)) (GetName repo) (GetNumber pr) = Some diff \<longrightarrow>
       ProcessPullRequest rc svc repo pr =
         bindP (GenerateReview svc diff (GetTitle pr) (GetBody pr) (defaultConfig (GetName repo)))
           (\<lambda>reviewResult.
              Inr [GetPRDiff (GetLogin (GetOwner repo)) (GetName repo) (GetNumber pr),
                   PostReview (GetLogin (GetOwner repo)) (GetName repo) (GetNumber pr)
                     (if WarningMessage (checkPRSize pr) \<noteq> []
                      then reviewResult\<lparr>Summary :=
                             WarningMessage (checkPRSize pr) @ Summary reviewResult\<rparr>
                      else reviewResult)]))
   \<and> (GetRepositoryConfig rc (GetLogin (GetOwner repo)) (GetName repo) = None \<longrightarrow>
       ProcessPullRequest rc svc repo pr \<noteq> Inr [])"
proof -
  let ?exact = "\<lambda>repo. RepositoryConfig.Name repo = repoName"
  let ?wild = "\<lambda>repo. RepositoryConfig.Name repo = ''*'' \<or> RepositoryConfig.Name repo = ''default''"
  have eq: "GetRepositoryConfig rc owner repoName =
     (case find (usableOrg owner repoName) (Organizations rc) of
        None \<Rightarrow> None
      | Some org \<Rightarrow>
          (case find ?exact (Repositories org) of
             Some repo \<Rightarrow> Some repo
           | None \<Rightarrow> find ?wild (Repositories org)))"
    unfolding GetRepositoryConfig_def by (rule GetRepositoryConfigLoop_find)
  have exact: "\<exists>r. GetRepositoryConfig rc owner repoName = Some r \<and> r \<in> set (Repositories o')
            \<and> RepositoryConfig.Name r = repoName"
    if u: "find (usableOrg owner repoName) (Organizations rc) = Some o'"
      and e: "e \<in> set (Repositories o')" "RepositoryConfig.Name e = repoName" for o' e
  proof -
    from e have "list_ex ?exact (Repositories o')"
      by (auto simp: list_ex_iff)
    then obtain r where r: "find ?exact (Repositories o') = Some r"
      using find_None_iff_ex by fastforce
    from find_Some_member [OF r] r u show ?thesis
      by (simp add: eq)
  qed
  have wild: "\<exists>w. GetRepositoryConfig rc owner repoName = Some w \<and> w \<in> set (Repositories o')
            \<and> ?wild w"
    if u: "find (usableOrg owner repoName) (Organizations rc) = Some o'"
      and n: "\<forall>r\<in>set (Repositories o'). RepositoryConfig.Name r \<noteq> repoName" for o'
  proof -
    from n have none: "find ?exact (Repositories o') = None"
      by (simp add: find_None_iff_ex list_ex_iff)
    from find_Some_member [OF u] n have "list_ex ?wild (Repositories o')"
      by (auto simp: usableOrg_def list_ex_iff)
    then obtain w where w: "find ?wild (Repositories o') = Some w"
      using find_None_iff_ex by fastforce
    from find_Some_member [OF w] w u none show ?thesis
      by (simp add: eq)
  qed
  have none: "GetRepositoryConfig rc owner repoName = None \<longleftrightarrow>
        \<not> list_ex (usableOrg owner repoName) (Organizations rc)"
  proof (cases "find (usableOrg owner repoName) (Organizations rc)")
    case None
    then have "\<not> list_ex (usableOrg owner repoName) (Organizations rc)"
      by (simp add: find_None_iff_ex)
    with None show ?thesis
      by (simp add: eq)
  next
    case (Some o')
    then have "list_ex (usableOrg owner repoName) (Organizations rc)"
      using find_None_iff_ex [of "usableOrg owner repoName" "Organizations rc"] by simp
    moreover have "GetRepositoryConfig rc owner repoName \<noteq> None"
    proof (cases "\<forall>r\<in>set (Repositories o'). RepositoryConfig.Name r \<noteq> repoName")
      case True
      from wild [OF Some True] show ?thesis
        by auto
    next
      case False
      then obtain e where "e \<in> set (Repositories o')" "RepositoryConfig.Name e = repoName"
        by blast
      from exact [OF Some this] show ?thesis
        by auto
    qed
    ultimately show ?thesis
      by simp
  qed
  have unique: "\<exists>r. GetRepositoryConfig rc owner repoName = Some r \<and> r \<in> set (Repositories org)
            \<and> RepositoryConfig.Name r = repoName"
    if d: "distinct (map OrganizationConfig.Name (Organizations rc))"
      and o: "org \<in> set (Organizations rc)" "OrganizationConfig.Name org = owner"
      and e: "exact \<in> set (Repositories org)" "RepositoryConfig.Name exact = repoName"
  proof -
    from o e have "usableOrg owner repoName org"
      by (auto simp: usableOrg_def list_ex_iff)
    with d o have "find (usableOrg owner repoName) (Organizations rc) = Some org"
      by (intro find_unique [where f = OrganizationConfig.Name]) (simp_all add: usableOrg_def)
    from exact [OF this e] show ?thesis .
  qed
  have run: "ProcessPullRequest rc svc repo pr =
         bindP (GenerateReview svc diff (GetTitle pr) (GetBody pr) (defaultConfig (GetName repo)))
           (\<lambda>reviewResult.
              Inr [GetPRDiff (GetLogin (GetOwner repo)) (GetName repo) (GetNumber pr),
                   PostReview (GetLogin (GetOwner repo)) (GetName repo) (GetNumber pr)
                     (if WarningMessage (checkPRSize pr) \<noteq> []
                      then reviewResult\<lparr>Summary :=
                             WarningMessage (checkPRSize pr) @ Summary reviewResult\<rparr>
                      else reviewResult)])"
    if "GetRepositoryConfig rc (GetLogin (GetOwner repo)) (GetName repo) = None"
      "ShouldReview (checkPRSize pr)"
      "prDiff svc (GetLogin (GetOwner repo)) (GetName repo) (GetNumber pr) = Some diff"
    using that by (simp add: ProcessPullRequest_default)
  have calls: "ProcessPullRequest rc svc repo pr \<noteq> Inr []"
    if "GetRepositoryConfig rc (GetLogin (GetOwner repo)) (GetName repo) = None"
    using that
    by (auto simp: ProcessPullRequest_default bindP_def split: option.splits sum.splits)
  from eq exact [of org exact] wild [of org] none unique run calls show ?thesis
    by blast
qed

lemma parse_no_markers_text:
  "parseClaudeResponse ''Error generating AI review'' diff =
     Inr \<lparr>Summary = branding, Comments = []\<rparr>"
proof -
  have s: "extractSection ''Error generating AI review'' ''SUMMARY:'' = Inr []"
    by (simp add: extractSection_absent Contains_def)
  have p: "extractSection ''Error generating AI review'' ''POEM:'' = Inr []"
    by (simp add: extractSection_absent Contains_def)
  have sp: "Split ''Error generating AI review'' ''PR_COMMENT:'' = [''Error generating AI review'']"
    by (simp add: Split_None)
  show ?thesis
    unfolding parseClaudeResponse_def s p sp
    by (simp add: bindP_def)
qed

theorem GetRepositoryConfig_resolution_witness:
  "GetRepositoryConfig exampleOrgs ''acme'' ''svc'' =
     Some \<lparr>RepositoryConfig.Name = ''svc'', Precision = ''strict'', CustomPrompt = ''be kind''\<rparr>
   \<and> GetRepositoryConfig exampleOrgs ''acme'' ''web'' =
     Some \<lparr>RepositoryConfig.Name = ''*'', Precision = ''minor'', CustomPrompt = []\<rparr>
   \<and> GetRepositoryConfig exampleOrgs ''other'' ''svc'' = None
   \<and> ProcessPullRequest exampleOrgs exampleServices exampleRepository (examplePR 3 10 2) =
       Inr [GetPRDiff ''other'' ''svc'' 7,
            PostReview ''other'' ''svc'' 7 \<lparr>Summary = branding, Comments = []\<rparr>]"
proof -
  let ?org = "\<lparr>OrganizationConfig.Name = ''acme'',
          Repositories = [\<lparr>RepositoryConfig.Name = ''*'', Precision = ''minor'',
                            CustomPrompt = []\<rparr>,
                          \<lparr>RepositoryConfig.Name = ''svc'', Precision = ''strict'',
                            CustomPrompt = ''be kind''\<rparr>]\<rparr>"
  let ?svc = "\<lparr>RepositoryConfig.Name = ''svc'', Precision = ''strict'', CustomPrompt = ''be kind''\<rparr>"
  have a: "GetRepositoryConfig exampleOrgs ''acme'' ''svc'' = Some ?svc"
    using GetRepositoryConfig_resolution [of exampleOrgs "''acme''" "''svc''" ?org ?svc]
    by (simp add: exampleOrgs_def usableOrg_def)
  have b: "GetRepositoryConfig exampleOrgs ''acme'' ''web'' =
     Some \<lparr>RepositoryConfig.Name = ''*'', Precision = ''minor'', CustomPrompt = []\<rparr>"
    using GetRepositoryConfig_resolution [of exampleOrgs "''acme''" "''web''" ?org ?svc]
    by (simp add: exampleOrgs_def usableOrg_def)
  have c: "GetRepositoryConfig exampleOrgs ''other'' ''svc'' = None"
    using GetRepositoryConfig_resolution [of exampleOrgs "''other''" "''svc''" ?org ?svc]
    by (simp add: exampleOrgs_def usableOrg_def)
  have names: "GetLogin (GetOwner exampleRepository) = ''other''" "GetName exampleRepository = ''svc''"
    "GetNumber (examplePR 3 10 2) = 7" "GetTitle (examplePR 3 10 2) = ''t''"
    "GetBody (examplePR 3 10 2) = []"
    by (simp_all add: exampleRepository_def examplePR_def GetLogin_def GetOwner_def GetName_def
        GetNumber_def GetTitle_def GetBody_def getter_def)
  have size: "checkPRSize (examplePR 3 10 2) =
      \<lparr>ShouldReview = True, WarningMessage = [], SkipMessage = []\<rparr>"
    by (simp add: checkPRSize_def examplePR_getters Let_def MAX_FILES_FOR_REVIEW_def
        MAX_ADDITIONS_FOR_REVIEW_def MAX_TOTAL_CHANGES_def WARN_FILES_THRESHOLD_def
        WARN_ADDITIONS_THRESHOLD_def)
  have gen: "GenerateReview exampleServices ''=== a.go ==='' ''t'' [] (defaultConfig ''svc'') =
      Inr \<lparr>Summary = branding, Comments = []\<rparr>"
    by (simp add: GenerateReview_def exampleServices_def parse_no_markers_text)
  have diff: "prDiff exampleServices ''other'' ''svc'' 7 = Some ''=== a.go ===''"
    by (simp add: exampleServices_def)
  from GetRepositoryConfig_resolution [of exampleOrgs "''other''" "''svc''" ?org ?svc
      exampleRepository "examplePR 3 10 2" exampleServices "''=== a.go ===''"]
  have "ProcessPullRequest exampleOrgs exampleServices exampleRepository (examplePR 3 10 2) =
       Inr [GetPRDiff ''other'' ''svc'' 7,
            PostReview ''other'' ''svc'' 7 \<lparr>Summary = branding, Comments = []\<rparr>]"
    by (simp add: names c size gen bindP_def diff)
  with a b c show ?thesis
    by simp
qed

end
